(* ===== verification/Prelude.thy ===== *)
theory Prelude
  imports Main "HOL-Library.Word"
begin

text \<open>
  What the components share: how a C++ operation can end besides returning, reachable states
  of a step relation with the induction every safety proof of the development uses, and a few
  facts on lists that the library does not state in the form needed here.
\<close>

text \<open>The facts that say how the program's objects start, for the proofs that compute with them.\<close>

named_theorems fresh

section \<open>Outcomes\<close>

text \<open>
  A translated operation returns \<open>Inr v\<close> where the C++ returns \<open>v\<close>. \<open>Inl\<close> carries every other
  end: \<open>Exit\<close> is \<^verbatim>\<open>exit(n)\<close>, \<open>Uncaught\<close> an exception with its \<^verbatim>\<open>what()\<close> text (no
  handler exists anywhere in the program, so an exception that leaves a thread function ends
  the process), and \<open>Undefined\<close> an operation to which C++ gives no meaning, with a note.
\<close>

datatype stop = Exit int | Uncaught string | Undefined string

type_synonym 'a outcome = "stop + 'a"

section \<open>Reachable states\<close>

inductive reachable :: "('s \<Rightarrow> bool) \<Rightarrow> ('s \<Rightarrow> 's \<Rightarrow> bool) \<Rightarrow> 's \<Rightarrow> bool" for init step where
  reachable_init: "init s \<Longrightarrow> reachable init step s"
| reachable_step: "reachable init step s \<Longrightarrow> step s t \<Longrightarrow> reachable init step t"

lemma reachable_steps:
  "step\<^sup>*\<^sup>* s t \<Longrightarrow> reachable init step s \<Longrightarrow> reachable init step t"
  by (induction rule: rtranclp_induct) (auto intro: reachable_step)

text \<open>
  The contract of an invariant: it holds initially and every step keeps it. A component
  interprets the locale on its own step relation and gets the invariant in every reachable
  state, together with the weaker facts that follow from it.
\<close>

locale invariant_system =
  fixes init :: "'s \<Rightarrow> bool"
    and step :: "'s \<Rightarrow> 's \<Rightarrow> bool"
    and inv :: "'s \<Rightarrow> bool"
  assumes inv_init: "init s \<Longrightarrow> inv s"
    and inv_step: "inv s \<Longrightarrow> step s t \<Longrightarrow> inv t"
begin

lemma inv_reachable: "reachable init step s \<Longrightarrow> inv s"
  by (induction rule: reachable.induct) (auto intro: inv_init inv_step)

lemma inv_steps: "step\<^sup>*\<^sup>* s t \<Longrightarrow> inv s \<Longrightarrow> inv t"
proof -
  assume "step\<^sup>*\<^sup>* s t" and "inv s"
  then show "inv t" by (induction rule: rtranclp_induct) (auto intro: inv_step)
qed

lemma reachable_imp:
  "reachable init step s \<Longrightarrow> (\<And>s. inv s \<Longrightarrow> P s) \<Longrightarrow> P s"
  by (blast dest: inv_reachable)

end

section \<open>Simulation and refinement\<close>

text \<open>
  An abstract specification is a step relation of its own. A relation between the two states is a
  simulation when every step of the model is matched by some number of abstract steps; none at
  all for a step that the specification does not show.
\<close>

locale simulation =
  fixes init :: "'s \<Rightarrow> bool"
    and step :: "'s \<Rightarrow> 's \<Rightarrow> bool"
    and spec_init :: "'a \<Rightarrow> bool"
    and spec_step :: "'a \<Rightarrow> 'a \<Rightarrow> bool"
    and sim :: "'s \<Rightarrow> 'a \<Rightarrow> bool"
  assumes sim_init: "init s \<Longrightarrow> \<exists>a. spec_init a \<and> sim s a"
    and sim_step: "sim s a \<Longrightarrow> step s t \<Longrightarrow> \<exists>b. spec_step\<^sup>*\<^sup>* a b \<and> sim t b"
begin

lemma sim_steps: "step\<^sup>*\<^sup>* s t \<Longrightarrow> sim s a \<Longrightarrow> \<exists>b. spec_step\<^sup>*\<^sup>* a b \<and> sim t b"
proof (induction rule: rtranclp_induct)
  case (step t u)
  then obtain b where "spec_step\<^sup>*\<^sup>* a b" "sim t b" by blast
  with sim_step[OF this(2) step(2)] show ?case by (blast intro: rtranclp_trans)
qed blast

lemma sim_reachable: "reachable init step s \<Longrightarrow> \<exists>a. reachable spec_init spec_step a \<and> sim s a"
proof (induction rule: reachable.induct)
  case (reachable_init s)
  then show ?case by (blast dest: sim_init intro: reachable.reachable_init)
next
  case (reachable_step s t)
  then obtain a where "reachable spec_init spec_step a" "sim s a" by blast
  with sim_step[OF this(2) reachable_step(2)] show ?case by (blast intro: reachable_steps)
qed

end

text \<open>
  A refinement is a simulation by a function, the abstraction, in the states that satisfy an
  invariant.
\<close>

locale refinement = invariant_system init step inv
  for init :: "'s \<Rightarrow> bool" and step :: "'s \<Rightarrow> 's \<Rightarrow> bool" and inv :: "'s \<Rightarrow> bool" +
  fixes spec_init :: "'a \<Rightarrow> bool"
    and spec_step :: "'a \<Rightarrow> 'a \<Rightarrow> bool"
    and abst :: "'s \<Rightarrow> 'a"
  assumes abst_init: "init s \<Longrightarrow> spec_init (abst s)"
    and abst_step: "inv s \<Longrightarrow> step s t \<Longrightarrow> spec_step\<^sup>*\<^sup>* (abst s) (abst t)"

sublocale refinement \<subseteq> by_abst: simulation init step spec_init spec_step "\<lambda>s a. inv s \<and> a = abst s"
  by unfold_locales (auto intro: inv_init inv_step abst_init abst_step)

context refinement
begin

lemma abst_reachable: "reachable init step s \<Longrightarrow> reachable spec_init spec_step (abst s)"
  using by_abst.sim_reachable by blast

lemma abst_steps: "step\<^sup>*\<^sup>* s t \<Longrightarrow> inv s \<Longrightarrow> spec_step\<^sup>*\<^sup>* (abst s) (abst t)"
  using by_abst.sim_steps by blast

end

section \<open>Lists\<close>

text \<open>
  Threads are numbered by their position in a list of program counters; moving one thread is a
  list update. The number of threads in some class of program counters changes by what the
  moved thread contributes.
\<close>

definition count_pc :: "('a \<Rightarrow> bool) \<Rightarrow> 'a list \<Rightarrow> nat" where
  "count_pc P xs = length (filter P xs)"

lemma count_pc_update:
  "t < length xs \<Longrightarrow>
    count_pc P (xs[t := y]) + (if P (xs ! t) then 1 else 0)
      = count_pc P xs + (if P y then 1 else 0)"
proof (induction xs arbitrary: t)
  case Nil
  then show ?case by simp
next
  case (Cons x xs)
  show ?case
  proof (cases t)
    case 0
    then show ?thesis by (simp add: count_pc_def)
  next
    case (Suc n)
    with Cons.prems have "n < length xs" by simp
    from Cons.IH[OF this] Suc show ?thesis by (auto simp: count_pc_def)
  qed
qed

lemma count_pc_positive: "0 < count_pc P xs \<longleftrightarrow> (\<exists>t < length xs. P (xs ! t))"
  by (auto simp: count_pc_def filter_empty_conv in_set_conv_nth) (metis nth_mem)

lemma count_pc_moved:
  assumes t: "t < length xs"
  shows "count_pc P (xs[t := y])
    = (if P (xs ! t) then count_pc P xs - 1 else count_pc P xs) + (if P y then 1 else 0)"
proof (cases "P (xs ! t)")
  case True
  with t have "0 < count_pc P xs" by (auto simp: count_pc_positive)
  with True count_pc_update[OF t, of P y] show ?thesis by (auto split: if_splits)
next
  case False
  with count_pc_update[OF t, of P y] show ?thesis by simp
qed

lemma count_pc_replicate [simp]: "\<not> P x \<Longrightarrow> count_pc P (replicate n x) = 0"
  by (simp add: count_pc_def)

lemma nth_update_cases:
  "u < length xs \<Longrightarrow> xs[t := y] ! u = (if u = t then y else xs ! u)"
  by (simp add: nth_list_update)

lemma takeWhile_append_stop:
  "(\<And>x. x \<in> set xs \<Longrightarrow> P x) \<Longrightarrow> ys = [] \<or> \<not> P (hd ys) \<Longrightarrow> takeWhile P (xs @ ys) = xs"
  by (induction xs) (auto simp: takeWhile_eq_Nil_iff)

lemma dropWhile_append_stop:
  "(\<And>x. x \<in> set xs \<Longrightarrow> P x) \<Longrightarrow> ys = [] \<or> \<not> P (hd ys) \<Longrightarrow> dropWhile P (xs @ ys) = ys"
  by (induction xs) (auto simp: dropWhile_eq_self_iff)

end
