(* ===== verification/Safe_Queue.thy ===== *)
theory Safe_Queue
  imports Prelude
begin

text \<open>
  \<^verbatim>\<open>ThreadSafeQueue.h\<close>, one call at a time: what \<^verbatim>\<open>push\<close>, \<^verbatim>\<open>push_front\<close>,
  \<^verbatim>\<open>pop\<close> and \<^verbatim>\<open>clear\<close> do to the deque while the calling thread holds the mutex. The
  theory Queue_Threads takes the calls apart into the steps between which threads interleave
  and shows that they refine the operations of this theory.
\<close>

record 'a ThreadSafeQueue =
  que :: "'a list"

definition new_queue :: "'a ThreadSafeQueue" where
  "new_queue = \<lparr>que = []\<rparr>"

declare new_queue_def [fresh]

definition push :: "'a \<Rightarrow> 'a ThreadSafeQueue \<Rightarrow> 'a ThreadSafeQueue" where
  "push v q = q\<lparr>que := que q @ [v]\<rparr>"

definition push_front :: "'a \<Rightarrow> 'a ThreadSafeQueue \<Rightarrow> 'a ThreadSafeQueue" where
  "push_front v q = q\<lparr>que := v # que q\<rparr>"

text \<open>\<open>None\<close>: the wait predicate \<^verbatim>\<open>!que.empty()\<close> is false and the caller blocks.\<close>

definition pop :: "'a ThreadSafeQueue \<Rightarrow> ('a \<times> 'a ThreadSafeQueue) option" where
  "pop q = (case que q of [] \<Rightarrow> None | x # xs \<Rightarrow> Some (x, q\<lparr>que := xs\<rparr>))"

definition clear :: "'a ThreadSafeQueue \<Rightarrow> 'a ThreadSafeQueue" where
  "clear q = q\<lparr>que := []\<rparr>"

section \<open>The interface its clients rely on\<close>

text \<open>
  Most clients (the peers, the handlers of messages, the mail slot) see the queue as a channel:
  insertion at the end, removal at the front that blocks exactly on an empty queue. The laws are
  stated over any implementation with a view of its contents as a list.
\<close>

locale fifo_channel =
  fixes empty :: "'q"
    and enq :: "'a \<Rightarrow> 'q \<Rightarrow> 'q"
    and deq :: "'q \<Rightarrow> ('a \<times> 'q) option"
    and items :: "'q \<Rightarrow> 'a list"
  assumes items_empty: "items empty = []"
    and items_enq: "items (enq x q) = items q @ [x]"
    and deq_None: "deq q = None \<longleftrightarrow> items q = []"
    and deq_Some: "deq q = Some (x, q') \<Longrightarrow> items q = x # items q'"
begin

lemmas channel_laws = items_empty items_enq deq_None

lemma items_fold_enq: "items (fold enq xs q) = items q @ xs"
  by (induction xs arbitrary: q) (auto simp: channel_laws)

lemma deq_ready: "items q \<noteq> [] \<Longrightarrow> \<exists>q'. deq q = Some (hd (items q), q') \<and> items q' = tl (items q)"
proof -
  assume "items q \<noteq> []"
  then have "deq q \<noteq> None" by (simp add: deq_None)
  then obtain y q' where d: "deq q = Some (y, q')" by auto
  from deq_Some[OF d] d show ?thesis by simp
qed

lemma deq_enq_empty: "items q = [] \<Longrightarrow> \<exists>q'. deq (enq x q) = Some (x, q') \<and> items q' = []"
  using deq_ready[of "enq x q"] by (simp add: items_enq)

end

text \<open>The whole class: also insertion in front and emptying.\<close>

locale blocking_queue = fifo_channel empty enq deq items
  for empty :: "'q"
    and enq :: "'a \<Rightarrow> 'q \<Rightarrow> 'q"
    and deq :: "'q \<Rightarrow> ('a \<times> 'q) option"
    and items :: "'q \<Rightarrow> 'a list" +
  fixes enq_front :: "'a \<Rightarrow> 'q \<Rightarrow> 'q"
    and reset :: "'q \<Rightarrow> 'q"
  assumes items_enq_front: "items (enq_front x q) = x # items q"
    and items_reset: "items (reset q) = []"
begin

lemmas queue_laws = channel_laws items_enq_front items_reset

lemma deq_front: "\<exists>q'. deq (enq_front x q) = Some (x, q') \<and> items q' = items q"
  using deq_ready[of "enq_front x q"] by (simp add: items_enq_front)

lemma deq_reset: "deq (reset q) = None"
  by (simp add: queue_laws)

end

interpretation tsq: blocking_queue new_queue push pop que push_front clear
  by unfold_locales
    (auto simp: new_queue_def push_def push_front_def pop_def clear_def split: list.splits)

lemmas queue_defs = new_queue_def push_def push_front_def pop_def clear_def

lemma pop_que: "pop q = (case que q of [] \<Rightarrow> None | x # xs \<Rightarrow> Some (x, q\<lparr>que := xs\<rparr>))"
  by (simp add: pop_def)

section \<open>Sequences of completed calls\<close>

datatype 'a qop = QPush 'a | QPushFront 'a | QPop 'a | QClear

text \<open>
  Replays the calls in the order they took effect. A \<open>QPop x\<close> that could not have returned
  \<open>x\<close> makes the sequence impossible (\<open>None\<close>).
\<close>

fun run_ops :: "'a ThreadSafeQueue \<Rightarrow> 'a qop list \<Rightarrow> 'a ThreadSafeQueue option" where
  "run_ops q [] = Some q"
| "run_ops q (QPush x # l) = run_ops (push x q) l"
| "run_ops q (QPushFront x # l) = run_ops (push_front x q) l"
| "run_ops q (QClear # l) = run_ops (clear q) l"
| "run_ops q (QPop x # l) =
     (case pop q of None \<Rightarrow> None | Some (y, q') \<Rightarrow> if x = y then run_ops q' l else None)"

fun pushed :: "'a qop list \<Rightarrow> 'a list" where
  "pushed [] = []"
| "pushed (QPush x # l) = x # pushed l"
| "pushed (_ # l) = pushed l"

fun popped :: "'a qop list \<Rightarrow> 'a list" where
  "popped [] = []"
| "popped (QPop x # l) = x # popped l"
| "popped (_ # l) = popped l"

fun fifo_only :: "'a qop list \<Rightarrow> bool" where
  "fifo_only [] = True"
| "fifo_only (QPush x # l) = fifo_only l"
| "fifo_only (QPop x # l) = fifo_only l"
| "fifo_only (_ # l) = False"

lemma run_ops_append:
  "run_ops q (l @ l') = (case run_ops q l of None \<Rightarrow> None | Some q' \<Rightarrow> run_ops q' l')"
  by (induction q l rule: run_ops.induct) (auto split: option.splits)

text \<open>
  First in, first out: while only \<^verbatim>\<open>push\<close> and \<^verbatim>\<open>pop\<close> are called, what was in the queue
  followed by what was pushed is what was popped followed by what is left.
\<close>

lemma run_ops_fifo:
  "run_ops q l = Some q' \<Longrightarrow> fifo_only l \<Longrightarrow> que q @ pushed l = popped l @ que q'"
proof (induction q l arbitrary: q' rule: run_ops.induct)
  case (5 q x l)
  then obtain q1 where "pop q = Some (x, q1)" "run_ops q1 l = Some q'"
    by (auto split: option.splits if_splits)
  with 5 show ?case by (auto dest: tsq.deq_Some)
qed (auto simp: tsq.queue_laws)

end
