(* ===== verification/Queue_Threads.thy ===== *)
theory Queue_Threads
  imports Safe_Queue
begin

text \<open>
  \<^verbatim>\<open>ThreadSafeQueue.h\<close> with several threads inside at once. Each member function is cut at
  the points where other threads can run: acquiring \<^verbatim>\<open>mtx\<close>, the deque operation, the
  notification, the two halves of \<^verbatim>\<open>cv.wait\<close> (release and sleep; wake and re-acquire) and
  the release of the mutex at the end of the scope. The log \<open>hist\<close> is not part of the program:
  it records each deque operation at the step where it takes effect.
\<close>

section \<open>State and steps\<close>

text \<open>
  Where a thread is. The boolean of \<open>PushLock\<close> and \<open>PushIns\<close> tells \<^verbatim>\<open>push_front\<close> (true)
  from \<^verbatim>\<open>push\<close>; \<open>Release r\<close> is the end of any of the four functions, with the value
  \<^verbatim>\<open>pop\<close> returns.
\<close>

datatype 'a pc =
    Idle
  | PushLock bool 'a | PushIns bool 'a | PushNotify
  | PopLock | PopTest | PopWait | PopWake | PopCopy | PopDrop 'a
  | ClearLock | ClearDo
  | Release "'a option"

record 'a shared = "'a ThreadSafeQueue" +
  mtx :: "nat option"
  pcs :: "'a pc list"
  hist :: "'a qop list"

definition move :: "nat \<Rightarrow> 'a pc \<Rightarrow> 'a shared \<Rightarrow> 'a shared" where
  "move t p s = s\<lparr>pcs := (pcs s)[t := p]\<rparr>"

definition at_pc :: "'a shared \<Rightarrow> nat \<Rightarrow> 'a pc \<Rightarrow> bool" where
  "at_pc s t p \<longleftrightarrow> t < length (pcs s) \<and> pcs s ! t = p"

text \<open>
  What the surroundings do: a thread enters one of the member functions, and the condition
  variable may wake a waiter with no notification (a spurious wake-up, which C++ allows).
\<close>

inductive env_step :: "'a shared \<Rightarrow> 'a shared \<Rightarrow> bool" where
  call_push: "at_pc s t Idle \<Longrightarrow> env_step s (move t (PushLock front v) s)"
| call_pop: "at_pc s t Idle \<Longrightarrow> env_step s (move t PopLock s)"
| call_clear: "at_pc s t Idle \<Longrightarrow> env_step s (move t ClearLock s)"
| spurious: "at_pc s t PopWait \<Longrightarrow> env_step s (move t PopWake s)"

text \<open>What a thread inside a member function does.\<close>

inductive run_step :: "'a shared \<Rightarrow> 'a shared \<Rightarrow> bool" where
  lock_push: "at_pc s t (PushLock front v) \<Longrightarrow> mtx s = None \<Longrightarrow>
    run_step s (move t (PushIns front v) (s\<lparr>mtx := Some t\<rparr>))"
| insert_back: "at_pc s t (PushIns False v) \<Longrightarrow>
    run_step s (move t PushNotify (s\<lparr>que := que s @ [v], hist := hist s @ [QPush v]\<rparr>))"
| insert_front: "at_pc s t (PushIns True v) \<Longrightarrow>
    run_step s (move t PushNotify (s\<lparr>que := v # que s, hist := hist s @ [QPushFront v]\<rparr>))"
| notify_none: "at_pc s t PushNotify \<Longrightarrow> (\<forall>u < length (pcs s). pcs s ! u \<noteq> PopWait) \<Longrightarrow>
    run_step s (move t (Release None) s)"
| notify_one: "at_pc s t PushNotify \<Longrightarrow> at_pc s u PopWait \<Longrightarrow>
    run_step s (move t (Release None) (move u PopWake s))"
| lock_pop: "at_pc s t PopLock \<Longrightarrow> mtx s = None \<Longrightarrow>
    run_step s (move t PopTest (s\<lparr>mtx := Some t\<rparr>))"
| test_empty: "at_pc s t PopTest \<Longrightarrow> que s = [] \<Longrightarrow>
    run_step s (move t PopWait (s\<lparr>mtx := None\<rparr>))"
| test_nonempty: "at_pc s t PopTest \<Longrightarrow> que s \<noteq> [] \<Longrightarrow> run_step s (move t PopCopy s)"
| relock: "at_pc s t PopWake \<Longrightarrow> mtx s = None \<Longrightarrow>
    run_step s (move t PopTest (s\<lparr>mtx := Some t\<rparr>))"
| copy: "at_pc s t PopCopy \<Longrightarrow> run_step s (move t (PopDrop (hd (que s))) s)"
| drop: "at_pc s t (PopDrop v) \<Longrightarrow>
    run_step s (move t (Release (Some v)) (s\<lparr>que := tl (que s), hist := hist s @ [QPop v]\<rparr>))"
| lock_clear: "at_pc s t ClearLock \<Longrightarrow> mtx s = None \<Longrightarrow>
    run_step s (move t ClearDo (s\<lparr>mtx := Some t\<rparr>))"
| do_clear: "at_pc s t ClearDo \<Longrightarrow>
    run_step s (move t (Release None) (s\<lparr>que := [], hist := hist s @ [QClear]\<rparr>))"
| release: "at_pc s t (Release r) \<Longrightarrow> run_step s (move t Idle (s\<lparr>mtx := None\<rparr>))"

definition queue_step :: "'a shared \<Rightarrow> 'a shared \<Rightarrow> bool" where
  "queue_step s s' \<longleftrightarrow> env_step s s' \<or> run_step s s'"

definition queue_init :: "'a shared \<Rightarrow> bool" where
  "queue_init s \<longleftrightarrow> que s = [] \<and> mtx s = None \<and> hist s = [] \<and> (\<forall>p \<in> set (pcs s). p = Idle)"

section \<open>The invariant\<close>

text \<open>The program counters at which a thread holds the mutex.\<close>

fun holds :: "'a pc \<Rightarrow> bool" where
  "holds (PushIns _ _) = True"
| "holds PushNotify = True"
| "holds PopTest = True"
| "holds PopCopy = True"
| "holds (PopDrop _) = True"
| "holds ClearDo = True"
| "holds (Release _) = True"
| "holds _ = False"

text \<open>
  The threads that will look at the queue, or make another one look at it, before they sleep:
  a pusher that has not yet notified, a consumer that was woken or is past the lock.
\<close>

fun attending :: "'a pc \<Rightarrow> bool" where
  "attending PushNotify = True"
| "attending PopWake = True"
| "attending PopTest = True"
| "attending PopCopy = True"
| "attending (PopDrop _) = True"
| "attending _ = False"

definition mutex_inv :: "'a shared \<Rightarrow> bool" where
  "mutex_inv s \<longleftrightarrow> (\<forall>t < length (pcs s). holds (pcs s ! t) \<longleftrightarrow> mtx s = Some t) \<and>
     (\<forall>t. mtx s = Some t \<longrightarrow> t < length (pcs s))"

definition front_inv :: "'a shared \<Rightarrow> bool" where
  "front_inv s \<longleftrightarrow> (\<forall>t < length (pcs s).
     (pcs s ! t = PopCopy \<longrightarrow> que s \<noteq> []) \<and>
     (\<forall>v. pcs s ! t = PopDrop v \<longrightarrow> que s \<noteq> [] \<and> hd (que s) = v))"

definition wake_inv :: "'a shared \<Rightarrow> bool" where
  "wake_inv s \<longleftrightarrow> (\<exists>t < length (pcs s). pcs s ! t = PopWait) \<longrightarrow>
     length (que s) \<le> count_pc attending (pcs s)"

definition hist_inv :: "'a shared \<Rightarrow> bool" where
  "hist_inv s \<longleftrightarrow> run_ops new_queue (hist s) = Some \<lparr>que = que s\<rparr>"

definition queue_inv :: "'a shared \<Rightarrow> bool" where
  "queue_inv s \<longleftrightarrow> mutex_inv s \<and> front_inv s \<and> wake_inv s \<and> hist_inv s"

lemmas queue_inv_defs = queue_inv_def mutex_inv_def front_inv_def wake_inv_def hist_inv_def

lemma move_simps [simp]:
  "que (move t p s) = que s" "mtx (move t p s) = mtx s" "hist (move t p s) = hist s"
  "pcs (move t p s) = (pcs s)[t := p]"
  by (simp_all add: move_def)

lemma queue_inv_init: "queue_init s \<Longrightarrow> queue_inv s"
  by (auto simp: queue_inv_defs queue_init_def new_queue_def all_set_conv_all_nth)

text \<open>Only the thread that holds the mutex is at a program counter that holds it.\<close>

lemma holder_unique:
  "mutex_inv s \<Longrightarrow> t < length (pcs s) \<Longrightarrow> holds (pcs s ! t) \<Longrightarrow> u < length (pcs s) \<Longrightarrow>
    holds (pcs s ! u) \<Longrightarrow> u = t"
  by (auto simp: mutex_inv_def)

text \<open>The mutex part: each step moves the mutex and the program counter together.\<close>

lemma mutex_inv_env: "env_step s s' \<Longrightarrow> mutex_inv s \<Longrightarrow> mutex_inv s'"
  by (induction rule: env_step.induct) (auto simp: mutex_inv_def at_pc_def nth_list_update)

lemma mutex_inv_run: "run_step s s' \<Longrightarrow> mutex_inv s \<Longrightarrow> mutex_inv s'"
  by (induction rule: run_step.induct) (auto simp: mutex_inv_def at_pc_def nth_list_update)

text \<open>The front part: a thread between the wait and the removal is alone with the deque.\<close>

lemma front_inv_env: "env_step s s' \<Longrightarrow> front_inv s \<Longrightarrow> front_inv s'"
  by (induction rule: env_step.induct) (auto simp: front_inv_def at_pc_def nth_list_update)

lemma front_inv_run: "run_step s s' \<Longrightarrow> mutex_inv s \<Longrightarrow> front_inv s \<Longrightarrow> front_inv s'"
proof (induction rule: run_step.induct)
  case (insert_back s t v)
  then show ?case
    by (auto simp: front_inv_def at_pc_def nth_list_update dest: holder_unique[where t = t])
next
  case (insert_front s t v)
  then have "\<And>u. u < length (pcs s) \<Longrightarrow> holds (pcs s ! u) \<Longrightarrow> u = t"
    by (auto simp: at_pc_def dest: holder_unique)
  with insert_front show ?case
    by (fastforce simp: front_inv_def at_pc_def nth_list_update)
next
  case (drop s t v)
  then have "\<And>u. u < length (pcs s) \<Longrightarrow> holds (pcs s ! u) \<Longrightarrow> u = t"
    by (auto simp: at_pc_def dest: holder_unique)
  with drop show ?case by (fastforce simp: front_inv_def at_pc_def nth_list_update)
next
  case (do_clear s t)
  then have "\<And>u. u < length (pcs s) \<Longrightarrow> holds (pcs s ! u) \<Longrightarrow> u = t"
    by (auto simp: at_pc_def dest: holder_unique)
  with do_clear show ?case by (fastforce simp: front_inv_def at_pc_def nth_list_update)
qed (auto simp: front_inv_def at_pc_def nth_list_update)

text \<open>The log: a step that changes the deque appends the call that explains the change.\<close>

lemma hist_inv_env: "env_step s s' \<Longrightarrow> hist_inv s \<Longrightarrow> hist_inv s'"
  by (induction rule: env_step.induct) (auto simp: hist_inv_def)

lemma hist_inv_run: "run_step s s' \<Longrightarrow> front_inv s \<Longrightarrow> hist_inv s \<Longrightarrow> hist_inv s'"
proof (induction rule: run_step.induct)
  case (drop s t v)
  then have "que s \<noteq> []" "hd (que s) = v" by (auto simp: front_inv_def at_pc_def)
  then have "que s = v # tl (que s)" by (cases "que s") auto
  with drop show ?case
    by (auto simp: hist_inv_def run_ops_append pop_def split: list.splits)
qed (auto simp: hist_inv_def run_ops_append queue_defs)

text \<open>
  The wake-up part: the queue never holds more elements than there are threads attending to it
  while somebody sleeps. An insertion adds one element and its own pending notification, a
  notification hands its place to the thread it wakes, a removal takes one of each away, and a
  consumer only falls asleep on an empty queue.
\<close>

lemma attending_positive:
  "t < length (pcs s) \<Longrightarrow> attending (pcs s ! t) \<Longrightarrow> 0 < count_pc attending (pcs s)"
  by (auto simp: count_pc_positive)

lemma wake_inv_env: "env_step s s' \<Longrightarrow> wake_inv s \<Longrightarrow> wake_inv s'"
  by (induction rule: env_step.induct)
    (fastforce simp: wake_inv_def at_pc_def count_pc_moved nth_list_update)+

lemma wake_inv_notify_one:
  assumes "at_pc s t PushNotify" and "at_pc s u PopWait" and "wake_inv s"
  shows "wake_inv (move t (Release None) (move u PopWake s))"
proof -
  from assms(1,2) have ut: "u \<noteq> t" "t < length (pcs s)" "u < length (pcs s)"
    by (auto simp: at_pc_def)
  have "0 < count_pc attending (pcs s)"
    using assms(1) by (auto simp: at_pc_def intro: attending_positive)
  with ut assms(1,2) have "count_pc attending (pcs (move t (Release None) (move u PopWake s)))
      = count_pc attending (pcs s)"
    by (simp add: count_pc_moved at_pc_def)
  moreover have "length (que s) \<le> count_pc attending (pcs s)"
    using assms(2,3) by (auto simp: wake_inv_def at_pc_def)
  ultimately show ?thesis by (simp add: wake_inv_def)
qed

lemma wake_inv_run: "run_step s s' \<Longrightarrow> front_inv s \<Longrightarrow> wake_inv s \<Longrightarrow> wake_inv s'"
proof (induction rule: run_step.induct)
  case (notify_one s t u)
  then show ?case by (simp add: wake_inv_notify_one)
next
  case (drop s t v)
  then have "que s \<noteq> []" by (auto simp: front_inv_def at_pc_def)
  moreover have "0 < count_pc attending (pcs s)"
    using drop(1) by (auto simp: at_pc_def intro: attending_positive)
  ultimately show ?case using drop
    by (auto simp: wake_inv_def at_pc_def count_pc_moved nth_list_update split: if_splits)
qed (auto simp: wake_inv_def at_pc_def count_pc_moved nth_list_update split: if_splits)

lemma queue_inv_step: "queue_inv s \<Longrightarrow> queue_step s s' \<Longrightarrow> queue_inv s'"
  unfolding queue_inv_def queue_step_def
  by (auto intro: mutex_inv_env mutex_inv_run front_inv_env front_inv_run
      wake_inv_env wake_inv_run hist_inv_env hist_inv_run)

interpretation queue_sys: invariant_system queue_init queue_step queue_inv
  by unfold_locales (auto intro: queue_inv_init queue_inv_step)

abbreviation queue_reachable :: "'a shared \<Rightarrow> bool" where
  "queue_reachable \<equiv> reachable queue_init queue_step"

text \<open>
  A run in which a consumer falls asleep on the empty queue and a producer inserts an element:
  first with the notification still pending, then with the woken consumer about to remove it.
\<close>

definition demo_pending :: "nat shared" where
  "demo_pending = \<lparr>que = [5], mtx = Some 0, pcs = [PushNotify, PopWait], hist = [QPush 5]\<rparr>"

definition demo_removing :: "nat shared" where
  "demo_removing = \<lparr>que = [5], mtx = Some 1, pcs = [Idle, PopDrop 5], hist = [QPush 5]\<rparr>"

definition demo_shared :: "nat list \<Rightarrow> nat option \<Rightarrow> nat pc list \<Rightarrow> nat qop list \<Rightarrow> nat shared" where
  "demo_shared q m p h = \<lparr>que = q, mtx = m, pcs = p, hist = h\<rparr>"

lemma queue_step_envI: "queue_reachable s \<Longrightarrow> env_step s s' \<Longrightarrow> queue_reachable s'"
  by (auto simp: queue_step_def intro: reachable_step)

lemma queue_step_runI: "queue_reachable s \<Longrightarrow> run_step s s' \<Longrightarrow> queue_reachable s'"
  by (auto simp: queue_step_def intro: reachable_step)

lemmas demo_simps = demo_shared_def at_pc_def move_def

lemma queue_demo_pending: "queue_reachable demo_pending"
proof -
  have 0: "queue_reachable (demo_shared [] None [Idle, Idle] [])"
    by (rule reachable_init) (simp add: queue_init_def demo_shared_def)
  have 1: "queue_reachable (demo_shared [] None [Idle, PopLock] [])"
    using queue_step_envI[OF 0] env_step.call_pop[of "demo_shared [] None [Idle, Idle] []" 1]
    by (simp add: demo_simps)
  have 2: "queue_reachable (demo_shared [] (Some 1) [Idle, PopTest] [])"
    using queue_step_runI[OF 1] run_step.lock_pop[of "demo_shared [] None [Idle, PopLock] []" 1]
    by (simp add: demo_simps)
  have 3: "queue_reachable (demo_shared [] None [Idle, PopWait] [])"
    using queue_step_runI[OF 2] run_step.test_empty[of "demo_shared [] (Some 1) [Idle, PopTest] []" 1]
    by (simp add: demo_simps)
  have 4: "queue_reachable (demo_shared [] None [PushLock False 5, PopWait] [])"
    using queue_step_envI[OF 3] env_step.call_push[of "demo_shared [] None [Idle, PopWait] []" 0 False 5]
    by (simp add: demo_simps)
  have 5: "queue_reachable (demo_shared [] (Some 0) [PushIns False 5, PopWait] [])"
    using queue_step_runI[OF 4] run_step.lock_push[of "demo_shared [] None [PushLock False 5, PopWait] []" 0 False 5]
    by (simp add: demo_simps)
  show ?thesis
    using queue_step_runI[OF 5] run_step.insert_back[of "demo_shared [] (Some 0) [PushIns False 5, PopWait] []" 0 5]
    by (simp add: demo_simps demo_pending_def)
qed

lemma queue_demo_removing: "queue_reachable demo_removing"
proof -
  have 1: "queue_reachable (demo_shared [5] (Some 0) [Release None, PopWake] [QPush 5])"
    using queue_step_runI[OF queue_demo_pending] run_step.notify_one[of demo_pending 0 1]
    by (simp add: demo_simps demo_pending_def)
  have 2: "queue_reachable (demo_shared [5] None [Idle, PopWake] [QPush 5])"
    using queue_step_runI[OF 1] run_step.release[of "demo_shared [5] (Some 0) [Release None, PopWake] [QPush 5]" 0]
    by (simp add: demo_simps)
  have 3: "queue_reachable (demo_shared [5] (Some 1) [Idle, PopTest] [QPush 5])"
    using queue_step_runI[OF 2] run_step.relock[of "demo_shared [5] None [Idle, PopWake] [QPush 5]" 1]
    by (simp add: demo_simps)
  have 4: "queue_reachable (demo_shared [5] (Some 1) [Idle, PopCopy] [QPush 5])"
    using queue_step_runI[OF 3] run_step.test_nonempty[of "demo_shared [5] (Some 1) [Idle, PopTest] [QPush 5]" 1]
    by (simp add: demo_simps)
  show ?thesis
    using queue_step_runI[OF 4] run_step.copy[of "demo_shared [5] (Some 1) [Idle, PopCopy] [QPush 5]" 1]
    by (simp add: demo_simps demo_removing_def)
qed

section \<open>What the invariant gives\<close>

text \<open>C1: the concurrent queue refines the sequential one: in every reachable state the deque is
  exactly what running the completed deque operations one after the other, in the order in which
  they took effect, leaves; in particular every removal returned the element that was then in
  front. While only push and pop are called, the pushed elements in order are the popped
  elements in order followed by the contents.\<close>

theorem queue_linearizable:
  assumes "queue_reachable s"
  shows "run_ops new_queue (hist s) = Some \<lparr>que = que s\<rparr> \<and>
    (fifo_only (hist s) \<longrightarrow> pushed (hist s) = popped (hist s) @ que s)"
proof -
  have r: "run_ops new_queue (hist s) = Some \<lparr>que = que s\<rparr>"
    using queue_sys.inv_reachable[OF assms] by (simp add: queue_inv_def hist_inv_def)
  with run_ops_fifo[OF r] show ?thesis by (simp add: new_queue_def)
qed

theorem queue_linearizable_witness:
  "queue_reachable demo_pending \<and> fifo_only (hist demo_pending) \<and>
   run_ops new_queue (hist demo_pending) = Some \<lparr>que = [5]\<rparr> \<and>
   pushed (hist demo_pending) = popped (hist demo_pending) @ [5]"
  using queue_demo_pending queue_linearizable[OF queue_demo_pending]
  by (simp add: demo_pending_def)

text \<open>Mutual exclusion: no two threads are ever between acquiring and releasing the mutex of
  one queue.\<close>

theorem queue_mutual_exclusion:
  assumes "queue_reachable s"
    and "t < length (pcs s)" and "holds (pcs s ! t)"
    and "u < length (pcs s)" and "holds (pcs s ! u)"
  shows "t = u"
  using queue_sys.inv_reachable[OF assms(1)] holder_unique[of s u t] assms
  by (simp add: queue_inv_def)

theorem queue_mutual_exclusion_witness:
  "queue_reachable demo_pending \<and> {u \<in> {0, 1}. holds (pcs demo_pending ! u)} = {0}"
proof -
  have "holds (pcs demo_pending ! 0)" and l: "length (pcs demo_pending) = 2"
    by (simp_all add: demo_pending_def)
  with queue_mutual_exclusion[OF queue_demo_pending, of 0 1] show ?thesis
    using queue_demo_pending by (auto simp: l)
qed

text \<open>Pop never reads or removes the front of an empty deque: a thread past the wait of pop
  still finds the queue non-empty, and the element it is about to remove is the one it copied.\<close>

theorem pop_front_defined:
  assumes "queue_reachable s" and "t < length (pcs s)"
    and "pcs s ! t = PopCopy \<or> pcs s ! t = PopDrop v"
  shows "que s \<noteq> [] \<and> (pcs s ! t = PopDrop v \<longrightarrow> hd (que s) = v)"
  using queue_sys.inv_reachable[OF assms(1)] assms(2,3)
  by (auto simp: queue_inv_def front_inv_def)

theorem pop_front_defined_witness:
  "queue_reachable demo_removing \<and> pcs demo_removing ! 1 = PopDrop 5 \<and>
   que demo_removing \<noteq> [] \<and> hd (que demo_removing) = 5"
  using queue_demo_removing pop_front_defined[OF queue_demo_removing, of 1 5]
  by (simp add: demo_removing_def)

text \<open>The holder of the mutex can always take its next step.\<close>

lemma holder_steps:
  assumes "t < length (pcs s)" and "holds (pcs s ! t)"
  shows "\<exists>s'. run_step s s'"
proof -
  have at: "at_pc s t (pcs s ! t)" using assms(1) by (simp add: at_pc_def)
  show ?thesis
  proof (cases "pcs s ! t")
    case (PushIns front v)
    with at show ?thesis by (cases front) (auto intro: insert_back insert_front)
  next
    case PushNotify
    show ?thesis
    proof (cases "\<exists>u < length (pcs s). pcs s ! u = PopWait")
      case True
      then obtain u where "at_pc s u PopWait" by (auto simp: at_pc_def)
      with PushNotify at show ?thesis by (auto intro: notify_one)
    next
      case False
      with PushNotify at show ?thesis by (auto intro: notify_none)
    qed
  next
    case PopTest
    with at show ?thesis by (cases "que s = []") (auto intro: test_empty test_nonempty)
  qed (use assms(2) at in \<open>auto intro: run_step.intros\<close>)
qed

text \<open>A thread that waits for the mutex can take it when nobody holds it.\<close>

lemma free_mutex_steps:
  assumes "mutex_inv s" and "mtx s = None" and "t < length (pcs s)"
    and "pcs s ! t \<noteq> Idle" and "pcs s ! t \<noteq> PopWait"
  shows "\<exists>s'. run_step s s'"
proof -
  have "at_pc s t (pcs s ! t)" using assms(3) by (simp add: at_pc_def)
  moreover have "\<not> holds (pcs s ! t)" using assms by (simp add: mutex_inv_def)
  ultimately show ?thesis using assms(2,4,5)
    by (cases "pcs s ! t") (auto intro: run_step.intros)
qed

lemma busy_steps:
  assumes "mutex_inv s" and "t < length (pcs s)"
    and "pcs s ! t \<noteq> Idle" and "pcs s ! t \<noteq> PopWait"
  shows "\<exists>s'. run_step s s'"
proof (cases "mtx s")
  case None
  with assms show ?thesis by (blast intro: free_mutex_steps)
next
  case (Some h)
  with assms(1) have "h < length (pcs s)" "holds (pcs s ! h)" by (auto simp: mutex_inv_def)
  then show ?thesis by (rule holder_steps)
qed

text \<open>C12: no lost wake-up: while a consumer sleeps in pop, the queue holds at most as many elements as
  there are threads that attend to it, each of which is about to notify, or was woken, or is past the
  test of an empty queue and on its way to take an element; so while it holds any, there is such a thread, and
  the threads inside the queue are not stuck: one of them can take a step.\<close>

theorem queue_no_lost_wakeup:
  assumes "queue_reachable s" and "t < length (pcs s)" and "pcs s ! t = PopWait"
  shows "length (que s) \<le> count_pc attending (pcs s) \<and>
    (que s = [] \<or> (\<exists>u < length (pcs s). attending (pcs s ! u)) \<and> (\<exists>s'. run_step s s'))"
proof -
  from queue_sys.inv_reachable[OF assms(1)] have m: "mutex_inv s" and "wake_inv s"
    by (simp_all add: queue_inv_def)
  with assms(2,3) have l: "length (que s) \<le> count_pc attending (pcs s)" by (auto simp: wake_inv_def)
  show ?thesis
  proof (cases "que s = []")
    case False
    with l have "0 < count_pc attending (pcs s)" by (auto dest: le_trans)
    then obtain u where u: "u < length (pcs s)" "attending (pcs s ! u)"
      by (auto simp: count_pc_positive)
    then have "\<exists>s'. run_step s s'" by (intro busy_steps[OF m u(1)]) auto
    with u l show ?thesis by blast
  qed (use l in simp)
qed

theorem queue_no_lost_wakeup_witness:
  "queue_reachable demo_pending \<and> que demo_pending \<noteq> [] \<and> pcs demo_pending ! 1 = PopWait \<and>
   length (que demo_pending) \<le> count_pc attending (pcs demo_pending) \<and>
   (\<exists>u < length (pcs demo_pending). attending (pcs demo_pending ! u)) \<and> (\<exists>s'. run_step demo_pending s')"
proof -
  have n: "que demo_pending \<noteq> []" and t: "(1::nat) < length (pcs demo_pending)"
    "pcs demo_pending ! 1 = PopWait" by (simp_all add: demo_pending_def)
  from queue_no_lost_wakeup[OF queue_demo_pending t] n t queue_demo_pending
  show ?thesis by blast
qed

text \<open>C18: no deadlock: as long as some thread is inside a member function and not asleep on the
  condition variable, the threads inside the queue can move on.\<close>

theorem queue_deadlock_free:
  assumes "queue_reachable s" and "t < length (pcs s)"
    and "pcs s ! t \<noteq> Idle" and "pcs s ! t \<noteq> PopWait"
  shows "\<exists>s'. run_step s s'"
  using queue_sys.inv_reachable[OF assms(1)] busy_steps assms(2-4)
  by (auto simp: queue_inv_def)

theorem queue_deadlock_free_witness:
  "queue_reachable demo_removing \<and> pcs demo_removing ! 1 = PopDrop 5 \<and>
   (\<exists>s'. run_step demo_removing s')"
  using queue_demo_removing queue_deadlock_free[OF queue_demo_removing, of 1]
  by (simp add: demo_removing_def)

end
