(* ===== verification/Queue_Spec.thy ===== *)
theory Queue_Spec
  imports Queue_Threads
begin

text \<open>
  What the users of \<^verbatim>\<open>ThreadSafeQueue.h\<close> may rely on when many threads use it: an atomic
  double-ended queue. Queue_Threads with its locks, waits and notifications refines it.
\<close>

section \<open>The specification\<close>

inductive deque_step :: "'a list \<Rightarrow> 'a list \<Rightarrow> bool" where
  at_end: "deque_step xs (xs @ [x])"
| at_front: "deque_step xs (x # xs)"
| remove: "deque_step (x # xs) xs"
| empty_it: "deque_step xs []"

definition deque_init :: "'a list \<Rightarrow> bool" where
  "deque_init xs \<longleftrightarrow> xs = []"

section \<open>The refinement\<close>

lemma env_step_que: "env_step s t \<Longrightarrow> que t = que s"
  by (cases rule: env_step.cases) (auto simp: move_def)

lemma run_step_que:
  assumes "queue_inv s" and "run_step s t"
  shows "que t = que s \<or> deque_step (que s) (que t)"
  using assms(2)
proof cases
  case (drop u v)
  then have "que s \<noteq> []" using assms(1) by (auto simp: queue_inv_defs at_pc_def)
  then obtain x xs where "que s = x # xs" by (cases "que s") auto
  with drop deque_step.remove[of x xs] show ?thesis by (simp add: move_def)
qed (auto simp: move_def intro: deque_step.intros)

interpretation queue_spec: refinement queue_init queue_step queue_inv deque_init deque_step que
proof unfold_locales
  show "deque_init (que s)" if "queue_init s" for s :: "'a shared"
    using that by (simp add: queue_init_def deque_init_def)
next
  fix s t :: "'a shared"
  assume "queue_inv s" and "queue_step s t"
  then have "que t = que s \<or> deque_step (que s) (que t)"
    by (auto simp: queue_step_def env_step_que dest: run_step_que)
  then show "deque_step\<^sup>*\<^sup>* (que s) (que t)" by auto
qed

end
