(* ===== verification/Charconv.thy ===== *)
theory Charconv
  imports Prelude
begin

text \<open>
  The parts of the C++ standard library the program reads and writes its text with:
  \<^verbatim>\<open>std::from_chars\<close> in base 10, \<^verbatim>\<open>std::to_string\<close>, \<^verbatim>\<open>operator>>\<close> of an
  \<^verbatim>\<open>istringstream\<close> into a string, and the tokens of a \<^verbatim>\<open>sregex_token_iterator\<close> that
  splits at a single character.
\<close>

section \<open>Numbers\<close>

definition is_digit :: "char \<Rightarrow> bool" where
  "is_digit c \<longleftrightarrow> 48 \<le> (of_char c :: nat) \<and> (of_char c :: nat) \<le> 57"

definition digit_val :: "char \<Rightarrow> nat" where
  "digit_val c = of_char c - 48"

definition digit_char :: "nat \<Rightarrow> char" where
  "digit_char d = char_of (48 + d)"

fun digits_value :: "nat \<Rightarrow> string \<Rightarrow> nat" where
  "digits_value acc [] = acc"
| "digits_value acc (c # cs) = digits_value (acc * 10 + digit_val c) cs"

datatype errc = Invalid_argument | Result_out_of_range

text \<open>
  The longest prefix of digits is read and what follows it is ignored, as \<^verbatim>\<open>from_chars\<close>
  does; there is no sign and no leading white space. \<open>mx\<close> is the largest value of the type.
\<close>

definition from_chars_unsigned :: "nat \<Rightarrow> string \<Rightarrow> errc + nat" where
  "from_chars_unsigned mx s =
     (let ds = takeWhile is_digit s; v = digits_value 0 ds
      in if ds = [] then Inl Invalid_argument
         else if v \<le> mx then Inr v else Inl Result_out_of_range)"

text \<open>For \<^verbatim>\<open>int\<close> (32 bits) a single minus sign may come first.\<close>

definition from_chars_int :: "string \<Rightarrow> errc + int" where
  "from_chars_int s =
     (case s of
        [] \<Rightarrow> Inl Invalid_argument
      | c # cs \<Rightarrow>
          if c = CHR ''-''
          then (case from_chars_unsigned 2147483648 cs of
                  Inl e \<Rightarrow> Inl e | Inr v \<Rightarrow> Inr (- int v))
          else (case from_chars_unsigned 2147483647 s of
                  Inl e \<Rightarrow> Inl e | Inr v \<Rightarrow> Inr (int v)))"

fun nat_to_string :: "nat \<Rightarrow> string" where
  "nat_to_string n =
     (if n < 10 then [digit_char n] else nat_to_string (n div 10) @ [digit_char (n mod 10)])"

declare nat_to_string.simps [simp del]

definition int_to_string :: "int \<Rightarrow> string" where
  "int_to_string i =
     (if i < 0 then CHR ''-'' # nat_to_string (nat (- i)) else nat_to_string (nat i))"

lemma of_char_digit [simp]: "d < 10 \<Longrightarrow> (of_char (digit_char d) :: nat) = 48 + d"
  by (simp add: digit_char_def)

lemma digit_char_is_digit [simp]: "d < 10 \<Longrightarrow> is_digit (digit_char d)"
  by (simp add: is_digit_def)

lemma digit_val_char [simp]: "d < 10 \<Longrightarrow> digit_val (digit_char d) = d"
  by (simp add: digit_val_def)

lemma digits_value_append: "digits_value a (xs @ ys) = digits_value (digits_value a xs) ys"
  by (induction a xs rule: digits_value.induct) auto

lemma digits_value_to_string [simp]: "digits_value 0 (nat_to_string n) = n"
proof (induction n rule: nat_to_string.induct)
  case (1 n)
  then show ?case
    by (cases "n < 10") (simp_all add: nat_to_string.simps[of n] digits_value_append)
qed

lemma nat_to_string_digits: "c \<in> set (nat_to_string n) \<Longrightarrow> is_digit c"
proof (induction n rule: nat_to_string.induct)
  case (1 n)
  then show ?case by (cases "n < 10") (auto simp: nat_to_string.simps[of n])
qed

lemma nat_to_string_not_Nil [simp]: "nat_to_string n \<noteq> []"
  by (simp add: nat_to_string.simps[of n])

lemma from_chars_to_string:
  assumes "v \<le> mx" and "ys = [] \<or> \<not> is_digit (hd ys)"
  shows "from_chars_unsigned mx (nat_to_string v @ ys) = Inr v"
proof -
  have "takeWhile is_digit (nat_to_string v @ ys) = nat_to_string v"
    using assms(2) by (intro takeWhile_append_stop) (auto dest: nat_to_string_digits)
  then show ?thesis using assms(1) by (simp add: from_chars_unsigned_def)
qed

lemma from_chars_unsigned_le: "from_chars_unsigned mx s = Inr v \<Longrightarrow> v \<le> mx"
  by (auto simp: from_chars_unsigned_def Let_def split: if_splits)

lemma minus_not_digit [simp]: "\<not> is_digit (CHR ''-'')"
  by (simp add: is_digit_def)

lemma from_chars_int_to_string:
  assumes "- 2147483648 \<le> i" and "i \<le> 2147483647"
  shows "from_chars_int (int_to_string i) = Inr i"
proof (cases "i < 0")
  case True
  with assms have "from_chars_unsigned 2147483648 (nat_to_string (nat (- i))) = Inr (nat (- i))"
    using from_chars_to_string[of "nat (- i)" _ "[]"] by simp
  with True show ?thesis by (simp add: from_chars_int_def int_to_string_def)
next
  case False
  with assms have v: "from_chars_unsigned 2147483647 (nat_to_string (nat i)) = Inr (nat i)"
    using from_chars_to_string[of "nat i" _ "[]"] by simp
  obtain c cs where "nat_to_string (nat i) = c # cs"
    by (meson nat_to_string_not_Nil neq_Nil_conv)
  moreover from this have "c \<noteq> CHR ''-''"
    using nat_to_string_digits[of c "nat i"] by auto
  ultimately show ?thesis using False v by (simp add: from_chars_int_def int_to_string_def)
qed

text \<open>What a pair of a printer and a parser promises; printing is then injective.\<close>

locale codec =
  fixes enc :: "'v \<Rightarrow> string"
    and dec :: "string \<Rightarrow> errc + 'v"
    and dom :: "'v \<Rightarrow> bool"
  assumes dec_enc: "dom v \<Longrightarrow> dec (enc v) = Inr v"
begin

lemma enc_inject: "dom v \<Longrightarrow> dom w \<Longrightarrow> enc v = enc w \<longleftrightarrow> v = w"
  by (metis dec_enc sum.inject(2))

end

interpretation int_text: codec int_to_string from_chars_int
    "\<lambda>i. - 2147483648 \<le> i \<and> i \<le> 2147483647"
  by unfold_locales (auto intro: from_chars_int_to_string)

interpretation port_text: codec nat_to_string "from_chars_unsigned 65535" "\<lambda>v. v \<le> 65535"
  using from_chars_to_string[of _ _ "[]"] by unfold_locales simp

interpretation octet_text: codec nat_to_string "from_chars_unsigned 255" "\<lambda>v. v \<le> 255"
  using from_chars_to_string[of _ _ "[]"] by unfold_locales simp

section \<open>Words of a stream\<close>

definition is_space :: "char \<Rightarrow> bool" where
  "is_space c \<longleftrightarrow> (of_char c :: nat) = 32 \<or> 9 \<le> (of_char c :: nat) \<and> (of_char c :: nat) \<le> 13"

definition next_word :: "string \<Rightarrow> (string \<times> string) option" where
  "next_word s =
     (let s' = dropWhile is_space s
      in if s' = [] then None
         else Some (takeWhile (\<lambda>c. \<not> is_space c) s', dropWhile (\<lambda>c. \<not> is_space c) s'))"

lemma next_word_shorter: "next_word s = Some (w, r) \<Longrightarrow> length r < length s"
proof -
  assume a: "next_word s = Some (w, r)"
  let ?s = "dropWhile is_space s"
  from a have ne: "?s \<noteq> []" and r: "r = dropWhile (\<lambda>c. \<not> is_space c) ?s"
    by (auto simp: next_word_def Let_def split: if_splits)
  from ne obtain c cs where c: "?s = c # cs" by (cases ?s) auto
  then have "\<not> is_space c" by (metis dropWhile_eq_Cons_conv)
  with c r have "length r \<le> length cs" by (simp add: length_dropWhile_le)
  moreover have "length ?s \<le> length s" by (rule length_dropWhile_le)
  ultimately show ?thesis using c by simp
qed

function words :: "string \<Rightarrow> string list" where
  "words s = (case next_word s of None \<Rightarrow> [] | Some (w, r) \<Rightarrow> w # words r)"
  by pat_completeness auto
termination
  by (relation "measure length") (auto dest: next_word_shorter)

declare words.simps [simp del]

definition is_word :: "string \<Rightarrow> bool" where
  "is_word w \<longleftrightarrow> w \<noteq> [] \<and> (\<forall>c \<in> set w. \<not> is_space c)"

lemma next_word_word: "is_word w \<Longrightarrow> r = [] \<or> is_space (hd r) \<Longrightarrow> next_word (w @ r) = Some (w, r)"
proof -
  assume w: "is_word w" and r: "r = [] \<or> is_space (hd r)"
  then have "dropWhile is_space (w @ r) = w @ r"
    by (cases w) (auto simp: is_word_def)
  moreover have "takeWhile (\<lambda>c. \<not> is_space c) (w @ r) = w"
    using w r by (intro takeWhile_append_stop) (auto simp: is_word_def)
  moreover have "dropWhile (\<lambda>c. \<not> is_space c) (w @ r) = r"
    using w r by (intro dropWhile_append_stop) (auto simp: is_word_def)
  ultimately show ?thesis using w by (simp add: next_word_def is_word_def Let_def)
qed

lemma next_word_is_word: "next_word s = Some (w, r) \<Longrightarrow> is_word w"
proof -
  assume a: "next_word s = Some (w, r)"
  let ?s = "dropWhile is_space s"
  from a have ne: "?s \<noteq> []" and w: "w = takeWhile (\<lambda>c. \<not> is_space c) ?s"
    by (auto simp: next_word_def Let_def split: if_splits)
  from ne obtain c cs where c: "?s = c # cs" by (cases ?s) auto
  then have "\<not> is_space c" by (metis dropWhile_eq_Cons_conv)
  with c w show ?thesis by (auto simp: is_word_def dest: set_takeWhileD)
qed

lemma words_are_words: "w \<in> set (words s) \<Longrightarrow> is_word w"
proof (induction s rule: words.induct)
  case (1 s)
  show ?case
  proof (cases "next_word s")
    case None
    with 1(2) show ?thesis by (simp add: words.simps[of s])
  next
    case (Some p)
    obtain v r where "p = (v, r)" by (cases p)
    with Some 1 next_word_is_word[of s v r] show ?thesis by (auto simp: words.simps[of s])
  qed
qed

lemma next_word_skip [simp]: "is_space c \<Longrightarrow> next_word (c # s) = next_word s"
  by (simp add: next_word_def)

lemma next_word_Nil [simp]: "next_word [] = None"
  by (simp add: next_word_def)

lemma words_Nil [simp]: "words [] = []"
  by (simp add: words.simps[of "[]"])

lemma words_skip: "is_space c \<Longrightarrow> words (c # s) = words s"
  by (simp add: words.simps[of "c # s"] words.simps[of s])

lemma words_word: "is_word w \<Longrightarrow> r = [] \<or> is_space (hd r) \<Longrightarrow> words (w @ r) = w # words r"
  by (simp add: words.simps[of "w @ r"] next_word_word)

lemma space_is_space [simp]: "is_space (CHR '' '')"
  by (simp add: is_space_def)

text \<open>Words joined by single spaces, and back.\<close>

fun unwords :: "string list \<Rightarrow> string" where
  "unwords [] = []"
| "unwords [w] = w"
| "unwords (w # ws) = w @ '' '' @ unwords ws"

lemma words_unwords: "\<forall>w \<in> set ws. is_word w \<Longrightarrow> words (unwords ws) = ws"
  by (induction ws rule: unwords.induct)
    (auto simp: words_word words_skip words_word[of _ "[]", simplified])

lemma unwords_snoc: "unwords (ws @ [w]) = (if ws = [] then w else unwords ws @ '' '' @ w)"
proof (induction ws)
  case (Cons v ws)
  then show ?case by (cases ws) auto
qed simp

lemma unwords_Nil_iff: "\<forall>w \<in> set ws. is_word w \<Longrightarrow> unwords ws = [] \<longleftrightarrow> ws = []"
  by (induction ws rule: unwords.induct) (auto simp: is_word_def)

section \<open>Splitting at a character\<close>

fun pieces :: "char \<Rightarrow> string \<Rightarrow> string list" where
  "pieces d [] = [[]]"
| "pieces d (c # cs) =
     (if c = d then [] # pieces d cs
      else (case pieces d cs of [] \<Rightarrow> [[c]] | p # ps \<Rightarrow> (c # p) # ps))"

text \<open>
  The token iterator with submatch \<^verbatim>\<open>-1\<close> yields what lies between the matches; an empty
  rest after the last match is left out, a text with no match is one token.
\<close>

definition tokens :: "char \<Rightarrow> string \<Rightarrow> string list" where
  "tokens d s =
     (let ps = pieces d s in if 1 < length ps \<and> last ps = [] then butlast ps else ps)"

lemma pieces_not_Nil [simp]: "pieces d s \<noteq> []"
  by (induction s) (auto split: list.splits)

lemma pieces_no_sep: "d \<notin> set s \<Longrightarrow> pieces d s = [s]"
  by (induction s) auto

lemma pieces_append: "d \<notin> set s \<Longrightarrow> pieces d (s @ d # r) = s # pieces d r"
  by (induction s) auto

lemma tokens_not_Nil [simp]: "tokens d s \<noteq> []"
  by (cases "pieces d s" rule: rev_cases) (auto simp: tokens_def Let_def)

end
