(* ===== verification/Traces.thy ===== *)
theory Traces
  imports Prelude
begin

text \<open>
  How the development speaks of the world outside the program: calls with an answer. The type of
  calls is a parameter; Platform instantiates it with the system calls of Linux and with OpenSSL,
  Windows with those of Windows. The answer to a call may depend on the whole history of calls
  and answers before it, so a statement about every \<open>world\<close> is a statement about every
  behaviour of the outside, and the history is the run in which safety properties are stated.
\<close>

section \<open>Calls and runs\<close>

type_synonym ('c, 'a) run = "('c \<times> 'a) list"
type_synonym ('c, 'a) world = "('c, 'a) run \<Rightarrow> 'c \<Rightarrow> 'a"

definition sys :: "('c, 'a) world \<Rightarrow> 'c \<Rightarrow> ('c, 'a) run \<Rightarrow> 'a \<times> ('c, 'a) run" where
  "sys e c tr = (let a = e tr c in (a, tr @ [(c, a)]))"

section \<open>Reasoning about traces\<close>

text \<open>
  An operation only extends the trace. \<open>extends Q tr tr'\<close> says that the calls it made, in their
  order, satisfy \<open>Q\<close>: the form in which what a component does to the outside world is stated.
\<close>

definition extends :: "(('c, 'a) run \<Rightarrow> bool) \<Rightarrow> ('c, 'a) run \<Rightarrow> ('c, 'a) run \<Rightarrow> bool" where
  "extends Q tr tr' \<longleftrightarrow> (\<exists>ts. tr' = tr @ ts \<and> Q ts)"

lemma extendsE:
  assumes "extends Q tr tr'" obtains ts where "tr' = tr @ ts" "Q ts"
  using assms by (auto simp: extends_def)

lemma extends_append [simp]: "extends Q tr (tr @ ts) \<longleftrightarrow> Q ts"
  by (simp add: extends_def)

lemma extends_mono: "extends P tr tr' \<Longrightarrow> (\<And>ts. P ts \<Longrightarrow> Q ts) \<Longrightarrow> extends Q tr tr'"
  by (auto simp: extends_def)

text \<open>Properties of a run of calls that hold of two runs in sequence when they hold of each.\<close>

locale run_property =
  fixes Q :: "('c, 'a) run \<Rightarrow> bool"
  assumes none: "Q []"
    and both: "Q xs \<Longrightarrow> Q ys \<Longrightarrow> Q (xs @ ys)"
begin

lemma refl [simp]: "extends Q tr tr"
  by (simp add: extends_def none)

lemma trans: "extends Q tr tr1 \<Longrightarrow> extends Q tr1 tr2 \<Longrightarrow> extends Q tr tr2"
  by (auto simp: extends_def intro: both)

lemma add: "extends Q tr tr1 \<Longrightarrow> Q ts \<Longrightarrow> extends Q tr (tr1 @ ts)"
  by (auto simp: extends_def intro: both)

end

text \<open>Every call of the run satisfies \<open>P\<close>.\<close>

abbreviation emits :: "('c \<Rightarrow> bool) \<Rightarrow> ('c, 'a) run \<Rightarrow> ('c, 'a) run \<Rightarrow> bool" where
  "emits P \<equiv> extends (list_all (\<lambda>x. P (fst x)))"

interpretation emits: run_property "list_all (\<lambda>x. P (fst x))" for P :: "'c \<Rightarrow> bool"
  by unfold_locales auto

lemma emits_mono: "emits P tr tr' \<Longrightarrow> (\<And>c. P c \<Longrightarrow> Q c) \<Longrightarrow> emits Q tr tr'"
  by (erule extends_mono) (auto simp: list_all_iff)

lemma snd_sys [simp]: "snd (sys e c tr) = tr @ [(c, e tr c)]"
  by (simp add: sys_def Let_def)

lemma fst_sys [simp]: "fst (sys e c tr) = e tr c"
  by (simp add: sys_def Let_def)

lemma sys_eq: "sys e c tr = (e tr c, tr @ [(c, e tr c)])"
  by (simp add: sys_def Let_def)

text \<open>
  For a property that does not depend on what the environment answers, a call is replaced by a
  longer trace with an arbitrary answer at its end.
\<close>

lemma sysD: "sys e c tr = (a, tr1) \<Longrightarrow> tr1 = tr @ [(c, a)]"
  by (auto simp: sys_eq)

end
