(* ===== verification/Platform.thy ===== *)
theory Platform
  imports Charconv Traces
begin

text \<open>
  The operating system, OpenSSL and the clock, as the program sees them: calls with an answer.
  Nothing of them is defined here. An environment \<open>env\<close> gives the answer to a call from the
  whole history of calls and answers before it, so a statement about every environment is a
  statement about every behaviour of the outside world, and the history is the trace in which
  the safety properties of the development are stated.
\<close>

section \<open>Calls and answers\<close>

text \<open>
  \<open>addrinfo\<close> is \<^verbatim>\<open>struct addrinfo\<close> with its socket address as text. Pointers to OpenSSL
  objects are integers, 0 is the null pointer.
\<close>

record addrinfo =
  ai_family :: int
  ai_socktype :: int
  ai_protocol :: int
  ai_addr :: string

datatype sysc =
    Getaddrinfo string string
  | Getnameinfo string
  | Socket int int int
  | Setsockopt_reuseaddr int
  | Inet_pton string
  | Bind int string "16 word"
  | Fcntl_getfl int
  | Fcntl_setfl int int
  | Connect int string
  | Select_write int nat
  | Getsockopt_error int
  | Close int
  | Sleep nat
  | Read int nat
  | Write int string
  | Epoll_create1
  | Epoll_ctl_add int int "32 word"
  | Epoll_wait int nat
  | SSL_CTX_new
  | SSL_CTX_set_verify_peer int
  | SSL_CTX_set_default_verify_paths int
  | SSL_CTX_load_verify_locations int string
  | SSL_CTX_set_min_proto_version int int
  | File_exists string
  | SSL_new int
  | SSL_set_fd int int
  | SSL_connect int
  | SSL_get_error int int
  | SSL_get_verify_result int
  | SSL_shutdown int
  | SSL_free int
  | SSL_CTX_free int
  | SSL_read int nat
  | SSL_write int string
  | Open_lock_file
  | Fcntl_setlk_write int
  | Mq_open bool
  | Mq_notify int
  | Mq_getattr_msgsize int
  | Mq_receive int nat
  | Mq_send int string
  | Malloc nat

text \<open>
  The return value, \<^verbatim>\<open>errno\<close> after the call, and what a call writes through a pointer: the
  address list of \<^verbatim>\<open>getaddrinfo\<close>, whether \<^verbatim>\<open>select\<close> left the descriptor in the write
  set, the \<^verbatim>\<open>SO_ERROR\<close> value, the events of \<^verbatim>\<open>epoll_wait\<close>, a received message.
\<close>

record ans =
  ret :: int
  errno :: int
  infos :: "addrinfo list"
  writable :: bool
  optval :: int
  events :: "(int \<times> 32 word) list"
  bytes :: string

type_synonym trace = "(sysc, ans) run"
type_synonym env = "(sysc, ans) world"

text \<open>An answer that only has a return value, for the concrete environments of the witnesses.\<close>

definition answer :: "int \<Rightarrow> ans" where
  "answer r = \<lparr>ret = r, errno = 0, infos = [], writable = False, optval = 0, events = [], bytes = []\<rparr>"

lemma answer_simps [simp]:
  "ret (answer r) = r" "errno (answer r) = 0" "infos (answer r) = []"
  "writable (answer r) = False" "optval (answer r) = 0" "events (answer r) = []"
  "bytes (answer r) = []"
  by (simp_all add: answer_def)

text \<open>The Linux values of the constants the code compares with or passes.\<close>

abbreviation (input) EINTR :: int where "EINTR \<equiv> 4"
abbreviation (input) EAGAIN :: int where "EAGAIN \<equiv> 11"
abbreviation (input) EINPROGRESS :: int where "EINPROGRESS \<equiv> 115"
abbreviation (input) O_NONBLOCK :: int where "O_NONBLOCK \<equiv> 2048"

definition EPOLLIN :: "32 word" where "EPOLLIN = 0x001"
definition EPOLLERR :: "32 word" where "EPOLLERR = 0x008"
definition EPOLLHUP :: "32 word" where "EPOLLHUP = 0x010"
definition EPOLLRDHUP :: "32 word" where "EPOLLRDHUP = 0x2000"
definition EPOLLET :: "32 word" where "EPOLLET = 0x80000000"

lemmas epoll_bits = EPOLLIN_def EPOLLERR_def EPOLLHUP_def EPOLLRDHUP_def EPOLLET_def

text \<open>\<^verbatim>\<open>constexpr auto CLOSED = -1\<close> (\<^verbatim>\<open>IPeer.h\<close>, \<^verbatim>\<open>Epoll.h\<close>).\<close>

definition CLOSED :: int where
  "CLOSED = -1"

declare CLOSED_def [fresh]

section \<open>Auxiliary.h\<close>

text \<open>\<^verbatim>\<open>handle_error\<close> prints and, when asked to, ends the process with \<^verbatim>\<open>EXIT_FAILURE\<close>.\<close>

definition handle_error :: "bool \<Rightarrow> unit outcome" where
  "handle_error exit_proc = (if exit_proc then Inl (Exit 1) else Inr ())"

text \<open>
  \<^verbatim>\<open>closeFd\<close> takes its descriptor by reference and does not assign to it: the caller's
  variable keeps the number of the closed descriptor.
\<close>

definition closeFd :: "env \<Rightarrow> int \<Rightarrow> trace \<Rightarrow> int \<times> trace" where
  "closeFd e fd tr = (let (a, tr1) = sys e (Close fd) tr in (ret a, tr1))"

lemma closeFd_eq [simp]: "closeFd e fd tr = (ret (e tr (Close fd)), tr @ [(Close fd, e tr (Close fd))])"
  by (simp add: closeFd_def sys_eq)

end
