(* ===== verification/Address.thy ===== *)
theory Address
  imports Platform
begin

text \<open>
  \<^verbatim>\<open>validateAddrTCP\<close> of \<^verbatim>\<open>EndPoint.cpp\<close>: splitting \<^verbatim>\<open>ip:port\<close> and checking both
  parts. \<open>Inl\<close> is the write past the end of the four-element array of octets.
\<close>

record addrTCP =
  addr_ip :: string
  addr_port :: "16 word"

definition isEmpty :: "addrTCP \<Rightarrow> bool" where
  "isEmpty a \<longleftrightarrow> addr_port a = 0 \<and> addr_ip a = []"

definition parse_port :: "string \<Rightarrow> errc + nat" where
  "parse_port s = from_chars_unsigned 65535 s"

definition parse_octet :: "string \<Rightarrow> errc + nat" where
  "parse_octet s = from_chars_unsigned 255 s"

text \<open>
  The loop over the dot-separated tokens. \<open>True\<close>: all were octets; \<open>False\<close>: one was not, or the
  first was zero. \<^verbatim>\<open>octet[idx]\<close> is handed to \<^verbatim>\<open>from_chars\<close> for every token, whatever
  \<^verbatim>\<open>idx\<close>; it is written when the token parses, and left alone when it does not.
\<close>

fun check_octets :: "nat \<Rightarrow> string list \<Rightarrow> bool outcome" where
  "check_octets idx [] = Inr True"
| "check_octets idx (t # ts) =
     (case parse_octet t of
        Inl _ \<Rightarrow> Inr False
      | Inr v \<Rightarrow>
          if 4 \<le> idx then Inl (Undefined ''octet[idx] out of range'')
          else if idx = 0 \<and> v = 0 then Inr False else check_octets (idx + 1) ts)"

definition validateAddrTCP :: "string \<Rightarrow> addrTCP outcome" where
  "validateAddrTCP addr =
     (if CHR '':'' \<notin> set addr then Inr \<lparr>addr_ip = [], addr_port = 0\<rparr>
      else
        let ip = takeWhile (\<lambda>c. c \<noteq> CHR '':'') addr;
            rest = tl (dropWhile (\<lambda>c. c \<noteq> CHR '':'') addr)
        in case parse_port rest of
             Inl _ \<Rightarrow> Inr \<lparr>addr_ip = [], addr_port = 0\<rparr>
           | Inr port \<Rightarrow>
               if port = 0 then Inr \<lparr>addr_ip = [], addr_port = 0\<rparr>
               else case check_octets 0 (tokens (CHR ''.'') ip) of
                      Inl u \<Rightarrow> Inl u
                    | Inr ok \<Rightarrow> Inr \<lparr>addr_ip = (if ok then ip else []), addr_port = of_nat port\<rparr>)"

section \<open>The octets\<close>

definition octet :: "string \<Rightarrow> bool" where
  "octet t \<longleftrightarrow> (\<exists>v. parse_octet t = Inr v)"

lemma octet_iff: "octet t \<longleftrightarrow> (case parse_octet t of Inl _ \<Rightarrow> False | Inr _ \<Rightarrow> True)"
  by (auto simp: octet_def split: sum.splits)

lemma check_octets_pos:
  assumes "0 < idx" and "idx \<le> 4"
  shows "check_octets idx ts =
    (if \<exists>t \<in> set (take (5 - idx) ts). \<not> octet t then Inr False
     else if idx + length ts \<le> 4 then Inr True
     else Inl (Undefined ''octet[idx] out of range''))"
  using assms
proof (induction idx ts rule: check_octets.induct)
  case (2 idx t ts)
  show ?case
  proof (cases "idx = 4")
    case True
    then show ?thesis by (cases "parse_octet t") (auto simp: octet_iff)
  next
    case False
    with 2 have "5 - idx = Suc (5 - (idx + 1))" by simp
    with 2 False show ?thesis
      by (cases "parse_octet t") (auto simp: octet_iff)
  qed
qed simp

text \<open>
  The whole check in one equation: it fails at the first five tokens or not at all, accepts up
  to four octets of which the first is not zero, and leaves the array on a fifth octet.
\<close>

lemma check_octets_eq:
  "check_octets 0 ts =
    (if \<exists>t \<in> set (take 5 ts). \<not> octet t then Inr False
     else if ts \<noteq> [] \<and> parse_octet (hd ts) = Inr 0 then Inr False
     else if length ts \<le> 4 then Inr True
     else Inl (Undefined ''octet[idx] out of range''))"
proof (cases ts)
  case (Cons t us)
  have five: "(5::nat) = Suc 4" by simp
  show ?thesis
  proof (cases "parse_octet t")
    case (Inr v)
    then show ?thesis unfolding Cons five
      by (auto simp: check_octets_pos[of "Suc 0" us, simplified] octet_def numeral_eq_Suc)
  qed (simp add: Cons octet_def)
qed simp

lemma check_octets_True:
  "check_octets 0 ts = Inr True \<longleftrightarrow>
    length ts \<le> 4 \<and> (\<forall>t \<in> set ts. octet t) \<and> (ts \<noteq> [] \<longrightarrow> parse_octet (hd ts) \<noteq> Inr 0)"
  by (auto simp: check_octets_eq)

lemma check_octets_Undefined:
  "check_octets 0 ts = Inl u \<longleftrightarrow> u = Undefined ''octet[idx] out of range'' \<and> 4 < length ts \<and>
    (\<forall>t \<in> set (take 5 ts). octet t) \<and> parse_octet (hd ts) \<noteq> Inr 0"
  by (auto simp: check_octets_eq)

section \<open>Which addresses are accepted\<close>

lemma takeWhile_colon:
  "CHR '':'' \<notin> set i \<Longrightarrow> takeWhile (\<lambda>c. c \<noteq> CHR '':'') (i @ CHR '':'' # r) = i"
  by (rule takeWhile_append_stop) auto

lemma dropWhile_colon:
  "CHR '':'' \<notin> set i \<Longrightarrow> dropWhile (\<lambda>c. c \<noteq> CHR '':'') (i @ CHR '':'' # r) = CHR '':'' # r"
  by (rule dropWhile_append_stop) auto

lemma validateAddrTCP_no_colon:
  "CHR '':'' \<notin> set a \<Longrightarrow> validateAddrTCP a = Inr \<lparr>addr_ip = [], addr_port = 0\<rparr>"
  by (simp add: validateAddrTCP_def)

lemma validateAddrTCP_colon:
  "CHR '':'' \<notin> set i \<Longrightarrow>
    validateAddrTCP (i @ CHR '':'' # r) =
      (case parse_port r of
         Inl _ \<Rightarrow> Inr \<lparr>addr_ip = [], addr_port = 0\<rparr>
       | Inr port \<Rightarrow>
           if port = 0 then Inr \<lparr>addr_ip = [], addr_port = 0\<rparr>
           else case check_octets 0 (tokens (CHR ''.'') i) of
                  Inl u \<Rightarrow> Inl u
                | Inr ok \<Rightarrow> Inr \<lparr>addr_ip = (if ok then i else []), addr_port = of_nat port\<rparr>)"
  by (simp add: validateAddrTCP_def takeWhile_colon dropWhile_colon)

lemma colon_cases:
  obtains "CHR '':'' \<notin> set a"
  | i r where "a = i @ CHR '':'' # r" and "CHR '':'' \<notin> set i"
  by (meson split_list_first)

lemma append_sep_eq:
  "x \<notin> set i \<Longrightarrow> x \<notin> set j \<Longrightarrow> i @ x # r = j @ x # q \<longleftrightarrow> i = j \<and> r = q"
proof (induction i arbitrary: j)
  case Nil
  then show ?case by (cases j) auto
next
  case (Cons y i)
  then show ?case by (cases j) auto
qed

text \<open>What the code accepts, over the text of the address.\<close>

definition valid_ip :: "string \<Rightarrow> bool" where
  "valid_ip i \<longleftrightarrow> length (tokens (CHR ''.'') i) \<le> 4 \<and>
     list_all octet (tokens (CHR ''.'') i) \<and> parse_octet (hd (tokens (CHR ''.'') i)) \<noteq> Inr 0"

lemma check_octets_valid: "check_octets 0 (tokens (CHR ''.'') i) = Inr True \<longleftrightarrow> valid_ip i"
  by (auto simp: check_octets_True valid_ip_def list_all_iff)

text \<open>C24: an address is accepted exactly when it is an ip part without colon, a colon, and a port:
  the port text starts with a number from 1 to 65535, the ip part has at most four tokens
  between its dots, each starting with a number up to 255, the first of them not zero. The
  accepted address keeps the ip text as it was written and the value of the port.\<close>

theorem validateAddrTCP_accepts:
  "validateAddrTCP a = Inr \<lparr>addr_ip = i, addr_port = p\<rparr> \<and> i \<noteq> [] \<longleftrightarrow>
    i \<noteq> [] \<and> CHR '':'' \<notin> set i \<and> valid_ip i \<and>
    (\<exists>rest v. a = i @ CHR '':'' # rest \<and> parse_port rest = Inr v \<and> v \<noteq> 0 \<and> p = of_nat v)"
proof (cases a rule: colon_cases)
  case 1
  then show ?thesis by (auto simp: validateAddrTCP_no_colon)
next
  case (2 j r)
  show ?thesis
  proof (cases "parse_port r")
    case (Inl e)
    with 2 show ?thesis by (auto simp: validateAddrTCP_colon append_sep_eq)
  next
    case (Inr v)
    show ?thesis
    proof (cases "check_octets 0 (tokens (CHR ''.'') j)")
      case (Inl u)
      then have "\<not> valid_ip j" by (simp flip: check_octets_valid)
      with 2 Inr Inl show ?thesis by (auto simp: validateAddrTCP_colon append_sep_eq)
    next
      case (Inr ok)
      then have "valid_ip j \<longleftrightarrow> ok" by (simp flip: check_octets_valid)
      with 2 \<open>parse_port r = Inr v\<close> Inr show ?thesis
        by (auto simp: validateAddrTCP_colon append_sep_eq)
    qed
  qed
qed

text \<open>C35: an ip part with five octets makes the check write past its array of four, and nothing
  else does: this happens exactly when the port is valid, the ip part has at least five tokens, the
  first five all start with a number up to 255, and the first is not zero.\<close>

theorem validateAddrTCP_overrun:
  "(\<exists>u. validateAddrTCP a = Inl u) \<longleftrightarrow>
    (\<exists>i rest v. a = i @ CHR '':'' # rest \<and> CHR '':'' \<notin> set i \<and> parse_port rest = Inr v \<and> v \<noteq> 0 \<and>
       4 < length (tokens (CHR ''.'') i) \<and> list_all octet (take 5 (tokens (CHR ''.'') i)) \<and>
       parse_octet (hd (tokens (CHR ''.'') i)) \<noteq> Inr 0)"
proof (cases a rule: colon_cases)
  case 1
  then show ?thesis by (auto simp: validateAddrTCP_no_colon)
next
  case (2 j r)
  have "(\<exists>u. check_octets 0 (tokens (CHR ''.'') j) = Inl u) \<longleftrightarrow>
      4 < length (tokens (CHR ''.'') j) \<and> list_all octet (take 5 (tokens (CHR ''.'') j)) \<and>
      parse_octet (hd (tokens (CHR ''.'') j)) \<noteq> Inr 0"
    by (auto simp: check_octets_Undefined list_all_iff)
  with 2 show ?thesis
    by (cases "parse_port r"; cases "check_octets 0 (tokens (CHR ''.'') j)")
      (auto simp: validateAddrTCP_colon append_sep_eq)
qed

section \<open>Printed addresses\<close>

definition dotted_quad :: "nat \<Rightarrow> nat \<Rightarrow> nat \<Rightarrow> nat \<Rightarrow> string" where
  "dotted_quad a b c d = nat_to_string a @ CHR ''.'' # nat_to_string b @ CHR ''.'' #
     nat_to_string c @ CHR ''.'' # nat_to_string d"

lemma digits_no_sep:
  "CHR ''.'' \<notin> set (nat_to_string n)" "CHR '':'' \<notin> set (nat_to_string n)"
  using nat_to_string_digits[of "CHR ''.''" n] nat_to_string_digits[of "CHR '':''" n]
  by (auto simp: is_digit_def)

lemma tokens_dotted_quad:
  "tokens (CHR ''.'') (dotted_quad a b c d) = map nat_to_string [a, b, c, d]"
  by (simp add: tokens_def dotted_quad_def pieces_append pieces_no_sep digits_no_sep)

lemma parse_octet_to_string: "v \<le> 255 \<Longrightarrow> parse_octet (nat_to_string v) = Inr v"
  using octet_text.dec_enc by (simp add: parse_octet_def)

lemma parse_port_to_string: "v \<le> 65535 \<Longrightarrow> parse_port (nat_to_string v) = Inr v"
  using port_text.dec_enc by (simp add: parse_port_def)

lemma octet_to_string: "v \<le> 255 \<Longrightarrow> octet (nat_to_string v)"
  by (auto simp: octet_def parse_octet_to_string)

lemma dotted_quad_no_colon: "CHR '':'' \<notin> set (dotted_quad a b c d)"
  by (simp add: dotted_quad_def digits_no_sep)

lemma valid_dotted_quad:
  "0 < a \<Longrightarrow> a \<le> 255 \<Longrightarrow> b \<le> 255 \<Longrightarrow> c \<le> 255 \<Longrightarrow> d \<le> 255 \<Longrightarrow> valid_ip (dotted_quad a b c d)"
  by (simp add: valid_ip_def tokens_dotted_quad parse_octet_to_string octet_to_string)

text \<open>Every IPv4 address with a non-zero first octet and every non-zero port, printed in the
  usual notation, is read back as itself.\<close>

theorem validateAddrTCP_roundtrip:
  assumes "0 < a" and "a \<le> 255" and "b \<le> 255" and "c \<le> 255" and "d \<le> 255"
    and "0 < p" and "p \<le> 65535"
  shows "validateAddrTCP (dotted_quad a b c d @ '':'' @ nat_to_string p)
    = Inr \<lparr>addr_ip = dotted_quad a b c d, addr_port = of_nat p\<rparr>"
proof -
  have "check_octets 0 (tokens (CHR ''.'') (dotted_quad a b c d)) = Inr True"
    using assms by (simp add: check_octets_valid valid_dotted_quad)
  with assms show ?thesis
    by (simp add: validateAddrTCP_colon dotted_quad_no_colon parse_port_to_string)
qed

theorem validateAddrTCP_roundtrip_witness:
  "validateAddrTCP (dotted_quad 172 22 77 70 @ '':'' @ nat_to_string 112)
    = Inr \<lparr>addr_ip = dotted_quad 172 22 77 70, addr_port = 112\<rparr>"
  using validateAddrTCP_roundtrip[of 172 22 77 70 112] by simp

end
