(* ===== verification/Epoll_Waiter.thy ===== *)
theory Epoll_Waiter
  imports Safe_Queue Platform
begin

unbundle bit_operations_syntax

text \<open>
  \<^verbatim>\<open>Epoll.h\<close> and \<^verbatim>\<open>Epoll.cpp\<close>: the epoll descriptor, the registration of sockets
  and the thread that turns the kernel's events into request lines for the end point.
\<close>

section \<open>The code\<close>

text \<open>\<open>waiter\<close>: the thread has been started.\<close>

record Epoll =
  epoll_fd :: int
  waiter :: bool

definition MAXEVENTS :: nat where
  "MAXEVENTS = 64"

definition Epoll_new :: "env \<Rightarrow> trace \<Rightarrow> Epoll \<times> trace" where
  "Epoll_new e tr =
     (let (a, tr1) = sys e Epoll_create1 tr
      in (\<lparr>epoll_fd = ret a, waiter = (ret a \<noteq> -1)\<rparr>, tr1))"

definition addNew :: "env \<Rightarrow> Epoll \<Rightarrow> int \<Rightarrow> 32 word \<Rightarrow> trace \<Rightarrow> bool \<times> trace" where
  "addNew e ep fd param tr =
     (let (a, tr1) = sys e (Epoll_ctl_add (epoll_fd ep) fd param) tr in (ret a \<noteq> -1, tr1))"

text \<open>The test that tells a dead connection from one with something to read.\<close>

definition hang_up :: "32 word \<Rightarrow> bool" where
  "hang_up ev \<longleftrightarrow> ev AND (EPOLLRDHUP OR EPOLLERR OR EPOLLHUP) \<noteq> 0 \<and> \<not> (ev AND EPOLLIN \<noteq> 0)"

definition event_request :: "int \<times> 32 word \<Rightarrow> string" where
  "event_request x =
     (let fd = ''-f '' @ int_to_string (fst x) @ '' ''
      in if hang_up (snd x) then fd @ ''-c'' else fd @ ''-r'')"

text \<open>
  One round of the waiter's loop. The kernel writes the \<^verbatim>\<open>wait\<close> events it returns to the
  front of the array. A signal is ignored, any other failure ends the process.
\<close>

definition waiterFunction ::
  "env \<Rightarrow> Epoll \<Rightarrow> string ThreadSafeQueue \<Rightarrow> trace \<Rightarrow> string ThreadSafeQueue outcome \<times> trace" where
  "waiterFunction e ep q tr =
     (let (a, tr1) = sys e (Epoll_wait (epoll_fd ep) MAXEVENTS) tr
      in if ret a = -1
         then (if errno a = EINTR then (Inr q, tr1)
               else case handle_error True of Inl x \<Rightarrow> (Inl x, tr1) | Inr _ \<Rightarrow> (Inr q, tr1))
         else (Inr (fold (\<lambda>x. push (event_request x)) (take (nat (ret a)) (events a)) q), tr1))"

section \<open>Events become requests\<close>

lemma and_flag_iff: "(ev AND 2 ^ n \<noteq> (0 :: 32 word)) \<longleftrightarrow> n < 32 \<and> bit ev n"
proof -
  have "bit (ev AND 2 ^ n) k \<longleftrightarrow> n < 32 \<and> k = n \<and> bit ev n" for k
    by (auto simp: bit_and_iff bit_exp_iff)
  then show ?thesis by (auto simp: bit_eq_iff)
qed

lemma epoll_powers:
  "EPOLLIN = 2 ^ 0" "EPOLLERR = 2 ^ 3" "EPOLLHUP = 2 ^ 4" "EPOLLRDHUP = 2 ^ 13"
  by (simp_all add: epoll_bits)

lemma or_nonzero: "a OR b \<noteq> (0 :: 32 word) \<longleftrightarrow> a \<noteq> 0 \<or> b \<noteq> 0"
  by (metis or_eq_0_iff)

text \<open>An event mask counts as a dead connection exactly when one of the three bits for errors
  and hang-ups is set and the bit for readable data is not; in particular a peer that sends its
  last bytes and closes (the mask 8193) is first read.\<close>

theorem hang_up_iff:
  "hang_up ev \<longleftrightarrow> \<not> bit ev 0 \<and> (bit ev 3 \<or> bit ev 4 \<or> bit ev 13)"
  unfolding hang_up_def bit.conj_disj_distrib epoll_powers or_nonzero and_flag_iff by auto

lemma hang_up_8193: "\<not> hang_up 8193"
  by (simp add: hang_up_def epoll_bits)

lemma fold_push_map: "que (fold (\<lambda>x. push (f x)) xs q) = que q @ map f xs"
  using tsq.items_fold_enq[of "map f xs" q] by (simp add: fold_map comp_def)

text \<open>One round of the waiter appends one request line per event to the end point's queue, in
  the order in which the kernel reported the events, and keeps what was queued; a signal changes
  nothing, and any other failure of epoll_wait ends the process.\<close>

theorem waiterFunction_queues_events:
  assumes "e tr (Epoll_wait (epoll_fd ep) MAXEVENTS) = a"
  shows "case fst (waiterFunction e ep q tr) of
      Inl x \<Rightarrow> x = Exit 1 \<and> ret a = -1 \<and> errno a \<noteq> EINTR
    | Inr q' \<Rightarrow>
        if ret a = -1 then errno a = EINTR \<and> q' = q
        else que q' = que q @ map event_request (take (nat (ret a)) (events a))"
  using assms by (auto simp: waiterFunction_def sys_eq handle_error_def fold_push_map Let_def)

definition two_events_env :: env where
  "two_events_env tr c =
     (case c of Epoll_wait _ _ \<Rightarrow> (answer 2)\<lparr>events := [(7, 0x2001), (4, 0x2010)]\<rparr>
      | _ \<Rightarrow> answer 0)"

theorem waiterFunction_queues_events_witness:
  "\<exists>q'. fst (waiterFunction two_events_env \<lparr>epoll_fd = 3, waiter = True\<rparr> (push ''-c'' new_queue) [])
      = Inr q' \<and> que q' = [''-c'', ''-f '' @ int_to_string 7 @ '' -r'', ''-f '' @ int_to_string 4 @ '' -c'']"
proof -
  let ?r = "fst (waiterFunction two_events_env \<lparr>epoll_fd = 3, waiter = True\<rparr> (push ''-c'' new_queue) [])"
  have e: "two_events_env [] (Epoll_wait (epoll_fd \<lparr>epoll_fd = 3, waiter = True\<rparr>) MAXEVENTS)
      = (answer 2)\<lparr>events := [(7, 0x2001), (4, 0x2010)]\<rparr>" by (simp add: two_events_env_def)
  from waiterFunction_queues_events[of two_events_env "[]" "\<lparr>epoll_fd = 3, waiter = True\<rparr>", OF e,
      of "push ''-c'' new_queue"] show ?thesis
    by (cases ?r) (auto simp: event_request_def hang_up_def epoll_bits queue_defs)
qed

section \<open>The events of a run\<close>

text \<open>What the kernel reported in a run of calls: the events of every successful \<^verbatim>\<open>epoll_wait\<close>.\<close>

fun waits :: "sysc \<Rightarrow> bool" where
  "waits (Epoll_wait _ _) = True"
| "waits _ = False"

definition reported :: "trace \<Rightarrow> (int \<times> 32 word) list" where
  "reported tr = concat (map (\<lambda>(c, a). if waits c \<and> ret a \<noteq> -1 then take (nat (ret a)) (events a) else []) tr)"

lemma reported_simps [simp]:
  "reported [] = []" "reported (xs @ ys) = reported xs @ reported ys"
  "reported [(c, a)] = (if waits c \<and> ret a \<noteq> -1 then take (nat (ret a)) (events a) else [])"
  by (simp_all add: reported_def)

lemma reported_silent: "emits (\<lambda>c. \<not> waits c) tr tr' \<Longrightarrow> reported tr' = reported tr"
  by (fastforce simp: extends_def reported_def list_all_iff)

lemma waiterFunction_reported:
  assumes "waiterFunction e ep q tr = (Inr q', tr')"
  shows "\<exists>xs. que q' = que q @ map event_request xs \<and> reported tr' = reported tr @ xs"
  using assms
  by (auto simp: waiterFunction_def fold_push_map handle_error_def sys_eq Let_def split: if_splits)

end
