(* ===== verification/Tls.thy ===== *)
theory Tls
  imports Platform
begin

text \<open>
  \<^verbatim>\<open>TLS.h\<close> and \<^verbatim>\<open>TLS.cpp\<close>: the pair of OpenSSL pointers a peer owns and the calls
  made on them. OpenSSL itself is part of the environment.
\<close>

section \<open>The object\<close>

text \<open>0 is \<^verbatim>\<open>nullptr\<close>, as the members are initialised.\<close>

record TLS =
  ssl_ctx :: int
  ssl :: int

definition new_TLS :: TLS where
  "new_TLS = \<lparr>ssl_ctx = 0, ssl = 0\<rparr>"

declare new_TLS_def [fresh]

abbreviation (input) TLS1_2_VERSION :: int where "TLS1_2_VERSION \<equiv> 0x0303"
abbreviation (input) TLS1_3_VERSION :: int where "TLS1_3_VERSION \<equiv> 0x0304"

abbreviation (input) SSL_ERROR_SSL :: int where "SSL_ERROR_SSL \<equiv> 1"
abbreviation (input) SSL_ERROR_WANT_READ :: int where "SSL_ERROR_WANT_READ \<equiv> 2"
abbreviation (input) SSL_ERROR_WANT_WRITE :: int where "SSL_ERROR_WANT_WRITE \<equiv> 3"
abbreviation (input) SSL_ERROR_SYSCALL :: int where "SSL_ERROR_SYSCALL \<equiv> 5"
abbreviation (input) SSL_ERROR_ZERO_RETURN :: int where "SSL_ERROR_ZERO_RETURN \<equiv> 6"
abbreviation (input) X509_V_OK :: int where "X509_V_OK \<equiv> 0"

definition keep_clear :: "env \<Rightarrow> TLS \<Rightarrow> trace \<Rightarrow> TLS \<times> trace" where
  "keep_clear e t tr =
     (let tr1 = (if ssl t \<noteq> 0
                 then snd (sys e (SSL_free (ssl t)) (snd (sys e (SSL_shutdown (ssl t)) tr)))
                 else tr);
          tr2 = snd (sys e (SSL_CTX_free (ssl_ctx t)) tr1)
      in (t\<lparr>ssl_ctx := 0, ssl := 0\<rparr>, tr2))"

definition create_context :: "env \<Rightarrow> TLS \<Rightarrow> trace \<Rightarrow> TLS outcome \<times> trace" where
  "create_context e t tr =
     (let (a, tr1) = sys e SSL_CTX_new tr
      in (if ret a = 0 then Inl (Exit 1) else Inr (t\<lparr>ssl_ctx := ret a\<rparr>), tr1))"

text \<open>
  The choice of the trust store: the default one for an empty \<^verbatim>\<open>certPath\<close>, otherwise the
  given file if it exists. A failure frees everything and goes on.
\<close>

definition load_trust :: "env \<Rightarrow> string \<Rightarrow> TLS \<Rightarrow> trace \<Rightarrow> TLS \<times> trace" where
  "load_trust e certPath t tr =
     (if certPath = []
      then (let (a, tr1) = sys e (SSL_CTX_set_default_verify_paths (ssl_ctx t)) tr
            in if ret a = 0 then keep_clear e t tr1 else (t, tr1))
      else (let (x, tr1) = sys e (File_exists certPath) tr
            in if ret x \<noteq> 0
               then (let (a, tr2) = sys e (SSL_CTX_load_verify_locations (ssl_ctx t) certPath) tr1
                     in if ret a = 0 then keep_clear e t tr2 else (t, tr2))
               else keep_clear e t tr1))"

definition allowed_version :: "int \<Rightarrow> int" where
  "allowed_version minVersion =
     (if minVersion \<noteq> TLS1_3_VERSION \<and> minVersion \<noteq> TLS1_2_VERSION then TLS1_2_VERSION
      else minVersion)"

definition configure_context :: "env \<Rightarrow> int \<Rightarrow> string \<Rightarrow> TLS \<Rightarrow> trace \<Rightarrow> TLS \<times> trace" where
  "configure_context e minVersion certPath t tr =
     (let tr1 = snd (sys e (SSL_CTX_set_verify_peer (ssl_ctx t)) tr);
          (t2, tr2) = load_trust e certPath t tr1;
          (a, tr3) = sys e (SSL_CTX_set_min_proto_version (ssl_ctx t2) (allowed_version minVersion)) tr2
      in if ret a = 0 then keep_clear e t2 tr3 else (t2, tr3))"

definition create_object :: "env \<Rightarrow> TLS \<Rightarrow> trace \<Rightarrow> TLS \<times> trace" where
  "create_object e t tr =
     (let (a, tr1) = sys e (SSL_new (ssl_ctx t)) tr; t1 = t\<lparr>ssl := ret a\<rparr>
      in if ret a = 0 then keep_clear e t1 tr1 else (t1, tr1))"

text \<open>
  The classification of a failed OpenSSL call: 1 try again, 0 end of file, -1 anything else.
\<close>

definition handle_io_failure :: "env \<Rightarrow> TLS \<Rightarrow> int \<Rightarrow> trace \<Rightarrow> int \<times> trace" where
  "handle_io_failure e t res tr =
     (let (a, tr1) = sys e (SSL_get_error (ssl t) res) tr
      in if ret a = SSL_ERROR_WANT_READ then (1, tr1)
         else if ret a = SSL_ERROR_WANT_WRITE then (1, tr1)
         else if ret a = SSL_ERROR_ZERO_RETURN then (0, tr1)
         else if ret a = SSL_ERROR_SYSCALL then (-1, tr1)
         else if ret a = SSL_ERROR_SSL
         then (let (v, tr2) = sys e (SSL_get_verify_result (ssl t)) tr1
               in if ret v \<noteq> X509_V_OK
                  then (-1, snd (sys e (SSL_get_verify_result (ssl t)) tr2))
                  else (-1, tr2))
         else (-1, tr1))"

definition tls_connect :: "env \<Rightarrow> int \<Rightarrow> TLS \<Rightarrow> trace \<Rightarrow> bool \<times> TLS \<times> trace" where
  "tls_connect e socket_fd t tr =
     (let (a, tr1) = sys e (SSL_set_fd (ssl t) socket_fd) tr;
          (t2, tr2) = (if ret a = 0 then keep_clear e t tr1 else (t, tr1));
          (c, tr3) = sys e (SSL_connect (ssl t2)) tr2
      in if ret c \<le> 0
         then (let (f, tr4) = handle_io_failure e t2 (ret c) tr3
               in if f \<le> 0
                  then (let (t5, tr5) = keep_clear e t2 tr4 in (False, t5, tr5))
                  else (True, t2, tr4))
         else (True, t2, tr3))"

lemmas tls_defs = keep_clear_def create_context_def load_trust_def configure_context_def
  create_object_def handle_io_failure_def tls_connect_def

section \<open>Ownership of the two OpenSSL objects\<close>

text \<open>The object can only be there when its context is: the object was made from the context.\<close>

definition tls_inv :: "TLS \<Rightarrow> bool" where
  "tls_inv t \<longleftrightarrow> ssl_ctx t = 0 \<longrightarrow> ssl t = 0"

lemma keep_clear_null: "fst (keep_clear e t tr) = t\<lparr>ssl_ctx := 0, ssl := 0\<rparr>"
  by (simp add: keep_clear_def Let_def)

lemma keep_clear_fields [simp]:
  "ssl_ctx (fst (keep_clear e t tr)) = 0" "ssl (fst (keep_clear e t tr)) = 0"
  by (simp_all add: keep_clear_null)

definition cleared :: "TLS \<Rightarrow> bool" where
  "cleared t \<longleftrightarrow> ssl_ctx t = 0 \<and> ssl t = 0"

lemma cleared_keep_clear [simp]: "cleared (fst (keep_clear e t tr))"
  by (simp add: cleared_def)

lemma load_trust_cases: "fst (load_trust e p t tr) = t \<or> cleared (fst (load_trust e p t tr))"
  by (simp add: load_trust_def sys_eq Let_def)

lemma configure_context_cases:
  "fst (configure_context e v p t tr) = t \<or> cleared (fst (configure_context e v p t tr))"
proof -
  obtain t2 tr2 where l: "load_trust e p t (snd (sys e (SSL_CTX_set_verify_peer (ssl_ctx t)) tr)) = (t2, tr2)"
    by fastforce
  then have "t2 = t \<or> cleared t2" by (metis fst_conv load_trust_cases)
  then show ?thesis using l by (auto simp: configure_context_def sys_eq Let_def)
qed

lemma tls_connect_false:
  "tls_connect e fd t tr = (False, t', tr') \<Longrightarrow> cleared t'"
  by (auto simp: tls_connect_def sys_eq Let_def keep_clear_def cleared_def split: prod.splits if_splits)

lemma tls_connect_true:
  "tls_connect e fd t tr = (True, t', tr') \<Longrightarrow> t' = t \<or> cleared t'"
  by (auto simp: tls_connect_def sys_eq Let_def keep_clear_def cleared_def split: prod.splits if_splits)

lemma handle_io_failure_range: "fst (handle_io_failure e t res tr) \<in> {-1, 0, 1}"
  by (simp add: handle_io_failure_def sys_eq Let_def)

lemma handle_io_failure_retry:
  "0 < fst (handle_io_failure e t res tr) \<longleftrightarrow>
    ret (e tr (SSL_get_error (ssl t) res)) \<in> {SSL_ERROR_WANT_READ, SSL_ERROR_WANT_WRITE}"
  by (simp add: handle_io_failure_def sys_eq Let_def)

section \<open>Which calls are made\<close>

text \<open>The OpenSSL calls that take no descriptor.\<close>

fun tls_call :: "sysc \<Rightarrow> bool" where
  "tls_call SSL_CTX_new \<longleftrightarrow> True"
| "tls_call (SSL_CTX_set_verify_peer _) \<longleftrightarrow> True"
| "tls_call (SSL_CTX_set_default_verify_paths _) \<longleftrightarrow> True"
| "tls_call (SSL_CTX_load_verify_locations _ _) \<longleftrightarrow> True"
| "tls_call (SSL_CTX_set_min_proto_version _ _) \<longleftrightarrow> True"
| "tls_call (File_exists _) \<longleftrightarrow> True"
| "tls_call (SSL_new _) \<longleftrightarrow> True"
| "tls_call (SSL_connect _) \<longleftrightarrow> True"
| "tls_call (SSL_get_error _ _) \<longleftrightarrow> True"
| "tls_call (SSL_get_verify_result _) \<longleftrightarrow> True"
| "tls_call (SSL_shutdown _) \<longleftrightarrow> True"
| "tls_call (SSL_free _) \<longleftrightarrow> True"
| "tls_call (SSL_CTX_free _) \<longleftrightarrow> True"
| "tls_call _ \<longleftrightarrow> False"

lemma keep_clear_tls_call: "emits tls_call tr (snd (keep_clear e t tr))"
  by (simp add: keep_clear_def Let_def)

lemma handle_io_failure_tls_call:
  "handle_io_failure e t res tr = (f, tr') \<Longrightarrow> emits tls_call tr tr'"
  by (auto simp: handle_io_failure_def Let_def split: prod.splits if_splits dest!: sysD)

lemma keep_clear_extend: "emits tls_call tr tr1 \<Longrightarrow> emits tls_call tr (snd (keep_clear e t tr1))"
  by (erule emits.trans) (rule keep_clear_tls_call)

lemma load_trust_tls_call: "emits tls_call tr (snd (load_trust e p t tr))"
  by (auto simp: load_trust_def sys_eq Let_def intro!: keep_clear_extend)

lemma configure_context_tls_call: "emits tls_call tr (snd (configure_context e w p t tr))"
proof -
  obtain v tr1 where v: "sys e (SSL_CTX_set_verify_peer (ssl_ctx t)) tr = (v, tr1)" by fastforce
  obtain t2 tr2 where l: "load_trust e p t tr1 = (t2, tr2)" by fastforce
  obtain a tr3 where a: "sys e (SSL_CTX_set_min_proto_version (ssl_ctx t2) (allowed_version w)) tr2
      = (a, tr3)" by fastforce
  have "emits tls_call tr tr1" using sysD[OF v] by simp
  moreover have "emits tls_call tr1 tr2" using load_trust_tls_call[of tr1 e p t] l by simp
  ultimately have "emits tls_call tr tr2" by (rule emits.trans)
  then have 3: "emits tls_call tr tr3" using sysD[OF a] by (auto intro: emits.add)
  from v l a 3 keep_clear_extend[OF 3] show ?thesis
    by (cases "ret a = 0") (simp_all add: configure_context_def)
qed

lemma create_object_tls_call: "emits tls_call tr (snd (create_object e t tr))"
  by (auto simp: create_object_def sys_eq Let_def intro!: keep_clear_extend)

section \<open>Allocation\<close>

text \<open>
  The OpenSSL contexts and objects alive after a run of calls. \<open>None\<close>: something was freed that
  was not alive, a double free; freeing the null pointer does nothing.
\<close>

type_synonym allocated = "int list \<times> int list"

fun tls_live :: "allocated \<Rightarrow> trace \<Rightarrow> allocated option" where
  "tls_live lv [] = Some lv"
| "tls_live (cs, ss) ((SSL_CTX_new, a) # ts) = tls_live (if ret a = 0 then cs else ret a # cs, ss) ts"
| "tls_live (cs, ss) ((SSL_new _, a) # ts) = tls_live (cs, if ret a = 0 then ss else ret a # ss) ts"
| "tls_live (cs, ss) ((SSL_free s, _) # ts) =
     (if s = 0 then tls_live (cs, ss) ts
      else if s \<in> set ss then tls_live (cs, remove1 s ss) ts else None)"
| "tls_live (cs, ss) ((SSL_CTX_free c, _) # ts) =
     (if c = 0 then tls_live (cs, ss) ts
      else if c \<in> set cs then tls_live (remove1 c cs, ss) ts else None)"
| "tls_live lv (_ # ts) = tls_live lv ts"

lemma tls_live_append:
  "tls_live lv (xs @ ys) = (case tls_live lv xs of None \<Rightarrow> None | Some lv' \<Rightarrow> tls_live lv' ys)"
  by (induction lv xs rule: tls_live.induct) auto

fun tls_inert :: "sysc \<Rightarrow> bool" where
  "tls_inert SSL_CTX_new = False"
| "tls_inert (SSL_new _) = False"
| "tls_inert (SSL_free _) = False"
| "tls_inert (SSL_CTX_free _) = False"
| "tls_inert _ = True"

lemma tls_inert_live: "list_all (\<lambda>x. tls_inert (fst x)) ts \<Longrightarrow> tls_live lv ts = Some lv"
  by (induction lv ts rule: tls_live.induct) auto

text \<open>What a TLS object owns, and a run that turns what \<open>t\<close> owns into what \<open>t'\<close> owns.\<close>

definition tls_own :: "TLS \<Rightarrow> allocated" where
  "tls_own t = (if ssl_ctx t = 0 then [] else [ssl_ctx t], if ssl t = 0 then [] else [ssl t])"

definition moves :: "TLS \<Rightarrow> TLS \<Rightarrow> trace \<Rightarrow> bool" where
  "moves t t' ts \<longleftrightarrow> tls_live (tls_own t) ts = Some (tls_own t')"

lemma moves_trans:
  "extends (moves t t1) tr tr1 \<Longrightarrow> extends (moves t1 t2) tr1 tr2 \<Longrightarrow> extends (moves t t2) tr tr2"
  by (auto simp: extends_def moves_def tls_live_append)

lemma moves_refl [simp]: "extends (moves t t) tr tr"
  by (simp add: extends_def moves_def)

lemma inert_moves: "emits tls_inert tr tr' \<Longrightarrow> extends (moves t t) tr tr'"
  by (auto simp: extends_def moves_def tls_inert_live)

lemma inert_call: "sys e c tr = (a, tr1) \<Longrightarrow> tls_inert c \<Longrightarrow> extends (moves t t) tr tr1"
  by (rule inert_moves) (auto dest: sysD)

lemma keep_clear_moves:
  "keep_clear e t tr = (t', tr') \<Longrightarrow> extends (moves t t') tr tr'"
  by (auto simp: keep_clear_def Let_def moves_def tls_own_def split: if_splits)

lemma create_context_moves:
  "create_context e new_TLS tr = (Inr t', tr') \<Longrightarrow> extends (moves new_TLS t') tr tr' \<and> ssl t' = 0"
  by (auto simp: create_context_def Let_def new_TLS_def moves_def tls_own_def
      split: prod.splits if_splits dest!: sysD)

lemma load_trust_moves:
  "load_trust e p t tr = (t', tr') \<Longrightarrow> extends (moves t t') tr tr'"
  by (auto simp: load_trust_def split: prod.splits if_splits
      intro: moves_trans[OF inert_call keep_clear_moves] inert_call
        moves_trans[OF inert_call moves_trans[OF inert_call keep_clear_moves]]
        moves_trans[OF inert_call inert_call])

lemma configure_context_moves:
  assumes "configure_context e v p t tr = (t', tr')"
  shows "extends (moves t t') tr tr'"
proof -
  obtain b tr1 where b: "sys e (SSL_CTX_set_verify_peer (ssl_ctx t)) tr = (b, tr1)" by fastforce
  obtain t2 tr2 where l: "load_trust e p t tr1 = (t2, tr2)" by fastforce
  obtain a tr3 where a: "sys e (SSL_CTX_set_min_proto_version (ssl_ctx t2) (allowed_version v)) tr2
      = (a, tr3)" by fastforce
  from inert_call[OF b] load_trust_moves[OF l] have "extends (moves t t2) tr tr2"
    by (auto intro: moves_trans)
  with inert_call[OF a] have 3: "extends (moves t t2) tr tr3" by (auto intro: moves_trans)
  show ?thesis
  proof (cases "ret a = 0")
    case True
    with assms b l a have "keep_clear e t2 tr3 = (t', tr')" by (simp add: configure_context_def)
    with 3 show ?thesis by (auto intro: moves_trans keep_clear_moves)
  next
    case False
    with assms b l a 3 show ?thesis by (simp add: configure_context_def)
  qed
qed

lemma create_object_moves:
  assumes "create_object e t tr = (t', tr')" and "ssl t = 0"
  shows "extends (moves t t') tr tr'"
proof -
  obtain a tr1 where a: "sys e (SSL_new (ssl_ctx t)) tr = (a, tr1)" by fastforce
  have n: "extends (moves t (t\<lparr>ssl := ret a\<rparr>)) tr tr1"
    using sysD[OF a] assms(2) by (simp add: moves_def tls_own_def)
  show ?thesis
  proof (cases "ret a = 0")
    case True
    with assms a have "keep_clear e (t\<lparr>ssl := ret a\<rparr>) tr1 = (t', tr')"
      by (simp add: create_object_def)
    with n show ?thesis by (auto intro: moves_trans keep_clear_moves)
  next
    case False
    with assms a n show ?thesis by (simp add: create_object_def)
  qed
qed

lemma handle_io_failure_inert:
  "handle_io_failure e t res tr = (f, tr') \<Longrightarrow> emits tls_inert tr tr'"
  by (auto simp: handle_io_failure_def Let_def split: prod.splits if_splits dest!: sysD)

lemma tls_connect_moves:
  assumes "tls_connect e fd t tr = (ok, t', tr')"
  shows "extends (moves t t') tr tr'"
proof -
  obtain a tr1 where a: "sys e (SSL_set_fd (ssl t) fd) tr = (a, tr1)" by fastforce
  obtain t2 tr2 where t2: "(if ret a = 0 then keep_clear e t tr1 else (t, tr1)) = (t2, tr2)"
    by fastforce
  obtain c tr3 where c: "sys e (SSL_connect (ssl t2)) tr2 = (c, tr3)" by fastforce
  obtain f tr4 where f: "handle_io_failure e t2 (ret c) tr3 = (f, tr4)" by fastforce
  obtain t5 tr5 where k: "keep_clear e t2 tr4 = (t5, tr5)" by fastforce
  have "extends (moves t t) tr tr1" using a by (rule inert_call) simp
  then have "extends (moves t t2) tr tr2"
    using t2 by (auto split: if_splits intro: moves_trans keep_clear_moves)
  then have 3: "extends (moves t t2) tr tr3" by (rule moves_trans[OF _ inert_call[OF c]]) simp
  then have 4: "extends (moves t t2) tr tr4"
    by (rule moves_trans[OF _ inert_moves[OF handle_io_failure_inert[OF f]]])
  then have 5: "extends (moves t t5) tr tr5" by (rule moves_trans[OF _ keep_clear_moves[OF k]])
  from 3 4 5 show ?thesis using assms a t2 c f k
    by (auto simp: tls_connect_def split: if_splits)
qed

end
