(* ===== verification/Peer.thy ===== *)
theory Peer
  imports Safe_Queue Tls
begin

text \<open>
  The state of a peer and the operation its manager calls: \<^verbatim>\<open>IPeer.h\<close>, the class
  \<^verbatim>\<open>IO\<close> of \<^verbatim>\<open>IO.h\<close>, its constructor and \<^verbatim>\<open>IO::request\<close>.
\<close>

section \<open>State\<close>

datatype req = CONNECT | CLOSE | WRITE | READ

type_synonym query = "req \<times> string"

text \<open>\<^verbatim>\<open>req notification{}\<close> is the enumerator with value 0, the least one.\<close>

fun req_value :: "req \<Rightarrow> nat" where
  "req_value CONNECT = 0"
| "req_value CLOSE = 1"
| "req_value WRITE = 2"
| "req_value READ = 3"

lemma req_value_inject: "req_value a = req_value b \<longleftrightarrow> a = b"
  by (cases a; cases b) auto

instantiation req :: linorder
begin

definition less_eq_req :: "req \<Rightarrow> req \<Rightarrow> bool" where
  "less_eq_req a b \<longleftrightarrow> req_value a \<le> req_value b"

definition less_req :: "req \<Rightarrow> req \<Rightarrow> bool" where
  "less_req a b \<longleftrightarrow> req_value a < req_value b"

instance
  by standard (auto simp: less_eq_req_def less_req_def req_value_inject)

end

instantiation req :: order_bot
begin

definition bot_req :: req where
  "bot_req = CONNECT"

instance
  by standard (simp add: less_eq_req_def bot_req_def)

end

text \<open>
  Where the peer's own thread is: at \<^verbatim>\<open>_que.pop()\<close>, at the head of the loop that
  connects, or at the head of the loop that reads; \<open>Reading True\<close> when \<^verbatim>\<open>request\<close> has been
  set to \<^verbatim>\<open>req::CLOSE\<close> inside that loop.
\<close>

datatype servant = Waiting | Connecting | Reading bool

text \<open>
  \<^verbatim>\<open>IPeer\<close>'s fields, then those of \<^verbatim>\<open>IO\<close>. The read buffer, the logger and the data base
  are left out: the code never looks at the bytes it reads, and the logger and the data base it
  is given do nothing. \<open>servant\<close> is the position of the thread of the same name.
\<close>

record IPeer =
  peer_ip :: string
  peer_port :: "16 word"
  peer_fd :: int

record IO = IPeer +
  locIp :: string
  locPort :: "16 word"
  tls :: TLS
  peer_que :: "query ThreadSafeQueue"
  servant :: servant

text \<open>
  \<^verbatim>\<open>_port\<close> has no initialiser and the constructor does not set it: \<open>junk\<close> is whatever the
  memory held.
\<close>

definition IO_fields :: "string \<Rightarrow> 16 word \<Rightarrow> 16 word \<Rightarrow> TLS \<Rightarrow> IO" where
  "IO_fields ip port junk t =
     \<lparr>peer_ip = [], peer_port = junk, peer_fd = CLOSED, locIp = ip, locPort = port,
      tls = t, peer_que = new_queue, servant = Waiting\<rparr>"

declare IO_fields_def [fresh]

definition IO_new ::
  "env \<Rightarrow> string \<Rightarrow> 16 word \<Rightarrow> bool \<Rightarrow> 16 word \<Rightarrow> trace \<Rightarrow> IO outcome \<times> trace" where
  "IO_new e ip port with_ssl junk tr =
     (if with_ssl
      then (case create_context e new_TLS tr of
              (Inl x, tr1) \<Rightarrow> (Inl x, tr1)
            | (Inr t1, tr1) \<Rightarrow>
                (let (t2, tr2) = configure_context e TLS1_2_VERSION [] t1 tr1;
                     (t3, tr3) = create_object e t2 tr2
                 in (Inr (IO_fields ip port junk t3), tr3)))
      else (Inr (IO_fields ip port junk new_TLS), tr))"

section \<open>Requests\<close>

text \<open>The condition of \<^verbatim>\<open>IO::request\<close>: the peer's address, its descriptor, or a free peer.\<close>

definition request_matches :: "string \<Rightarrow> 16 word \<Rightarrow> int \<Rightarrow> IO \<Rightarrow> bool" where
  "request_matches ip port fd io \<longleftrightarrow>
     (ip \<noteq> [] \<and> ip = peer_ip io \<and> port \<noteq> 0 \<and> port = peer_port io) \<or>
     (fd \<noteq> CLOSED \<and> fd = peer_fd io) \<or>
     (ip \<noteq> [] \<and> peer_ip io = [] \<and> port \<noteq> 0 \<and> peer_port io = 0 \<and> peer_fd io = CLOSED \<and>
      fd = peer_fd io)"

definition assign_master :: "string \<Rightarrow> 16 word \<Rightarrow> IO \<Rightarrow> IO" where
  "assign_master ip port io =
     (if peer_ip io = [] \<and> peer_port io = 0 then io\<lparr>peer_ip := ip, peer_port := port\<rparr> else io)"

definition request :: "string \<Rightarrow> 16 word \<Rightarrow> int \<Rightarrow> req \<Rightarrow> string \<Rightarrow> IO \<Rightarrow> bool \<times> IO" where
  "request ip port fd r msg io =
     (if request_matches ip port fd io
      then (let io1 = assign_master ip port io
            in (True, io1\<lparr>peer_que := push (r, msg) (peer_que io1)\<rparr>))
      else (False, io))"

definition timerCallback :: "IO \<Rightarrow> unit outcome" where
  "timerCallback io = Inl (Uncaught ''Function not implemented'')"

section \<open>The peers as their manager sees them\<close>

text \<open>
  \<^verbatim>\<open>EndPoint\<close> offers a request to its peers in turn, through \<^verbatim>\<open>IPeer::request\<close>, and
  stops at the first that takes it.
\<close>

fun offer :: "('p \<Rightarrow> bool \<times> 'p) \<Rightarrow> 'p list \<Rightarrow> bool \<times> 'p list" where
  "offer f [] = (False, [])"
| "offer f (p # ps) =
     (case f p of
        (True, p') \<Rightarrow> (True, p' # ps)
      | (False, p') \<Rightarrow> (let (r, ps') = offer f ps in (r, p' # ps')))"

text \<open>What the manager relies on: a peer that does not take a request is unchanged.\<close>

locale peer_interface =
  fixes ask :: "'p \<Rightarrow> bool \<times> 'p"
  assumes rejected_unchanged: "ask p = (False, p') \<Longrightarrow> p' = p"
begin

definition accepts :: "'p \<Rightarrow> bool" where
  "accepts p \<longleftrightarrow> fst (ask p)"

lemma not_accepts: "\<not> accepts p \<Longrightarrow> ask p = (False, p)"
  by (cases "ask p") (auto simp: accepts_def dest: rejected_unchanged)

lemma offer_none: "\<forall>p \<in> set ps. \<not> accepts p \<Longrightarrow> offer ask ps = (False, ps)"
  by (induction ps) (simp_all add: not_accepts)

lemma offer_first:
  "\<forall>p \<in> set ps. \<not> accepts p \<Longrightarrow> accepts p \<Longrightarrow>
    offer ask (ps @ p # qs) = (True, ps @ snd (ask p) # qs)"
proof (induction ps)
  case Nil
  then show ?case by (cases "ask p") (auto simp: accepts_def)
next
  case (Cons q ps)
  then show ?case by (simp add: not_accepts)
qed

lemma offer_cases:
  obtains (none) "\<forall>p \<in> set ps. \<not> accepts p" and "offer ask ps = (False, ps)"
  | (taken) qs p rs where "ps = qs @ p # rs" and "\<forall>q \<in> set qs. \<not> accepts q" and "accepts p"
      and "offer ask ps = (True, qs @ snd (ask p) # rs)"
proof (cases "\<exists>p \<in> set ps. accepts p")
  case True
  from split_list_first_prop[OF this] obtain qs p rs
    where s: "ps = qs @ p # rs" "\<forall>q \<in> set qs. \<not> accepts q" "accepts p" by blast
  show thesis by (rule taken[OF s]) (simp only: s(1) offer_first[OF s(2,3)])
next
  case False
  then have n: "\<forall>p \<in> set ps. \<not> accepts p" by blast
  show thesis by (rule none[OF n offer_none[OF n]])
qed

lemma offer_length: "length (snd (offer ask ps)) = length ps"
  by (cases ps rule: offer_cases) simp_all

lemma offer_taken_iff: "fst (offer ask ps) \<longleftrightarrow> (\<exists>p \<in> set ps. accepts p)"
  by (cases ps rule: offer_cases) auto

end

interpretation io_peer: peer_interface "request ip port fd r msg"
  for ip port fd r msg
  by unfold_locales (auto simp: request_def Let_def split: if_splits)

lemma io_accepts [simp]: "io_peer.accepts ip port fd r msg = request_matches ip port fd"
  by (auto simp: fun_eq_iff io_peer.accepts_def request_def Let_def)

lemma request_taken:
  "request_matches ip port fd io \<Longrightarrow> request ip port fd r msg io =
    (True, (assign_master ip port io)\<lparr>peer_que := push (r, msg) (peer_que io)\<rparr>)"
  by (simp add: request_def assign_master_def Let_def)

end
