(* ===== verification/Request_Line.thy ===== *)
theory Request_Line
  imports Address Epoll_Waiter Peer
begin

text \<open>
  The request lines of \<^verbatim>\<open>EndPoint.cpp\<close>: the loop of \<^verbatim>\<open>interpretRequest\<close> over the
  words of a line, and what it makes of the lines the program writes itself.
\<close>

section \<open>Request lines\<close>

text \<open>The local variables of \<^verbatim>\<open>interpretRequest\<close> that live through its loop.\<close>

record arguments =
  notification :: req
  opt :: string
  arg_ip :: string
  arg_fd :: int
  arg_port :: "16 word"
  arg_msg :: string

definition no_arguments :: arguments where
  "no_arguments = \<lparr>notification = bot, opt = [], arg_ip = [], arg_fd = CLOSED, arg_port = 0,
     arg_msg = []\<rparr>"

definition parse_fd :: "string \<Rightarrow> errc + int" where
  "parse_fd s = from_chars_int s"

definition add_message :: "string \<Rightarrow> arguments \<Rightarrow> arguments" where
  "add_message word st =
     st\<lparr>arg_msg := arg_msg st @ (if arg_msg st = [] then [] else '' '') @ word\<rparr>"

text \<open>
  The loop over the words of the line, on the rest of the stream. \<open>Inr None\<close> is the early return
  on an argument that is not expected.
\<close>

function interpret_stream :: "string \<Rightarrow> arguments \<Rightarrow> arguments option outcome" where
  "interpret_stream s st =
     (case next_word s of
        None \<Rightarrow> Inr (Some st)
      | Some (word, s1) \<Rightarrow>
          if word = ''-i'' then
            (case next_word s1 of
               None \<Rightarrow> Inl (Uncaught ''missing ip in arguments'')
             | Some (word, s2) \<Rightarrow>
                 (case validateAddrTCP word of
                    Inl u \<Rightarrow> Inl u
                  | Inr addr \<Rightarrow>
                      interpret_stream s2 (st\<lparr>arg_ip := addr_ip addr, arg_port := addr_port addr\<rparr>)))
          else if word = ''-f'' then
            (case next_word s1 of
               None \<Rightarrow> Inl (Uncaught ''missing file descriptor number'')
             | Some (word, s2) \<Rightarrow>
                 (case parse_fd word of
                    Inl _ \<Rightarrow> interpret_stream s2 st
                  | Inr fd \<Rightarrow> interpret_stream s2 (st\<lparr>arg_fd := fd\<rparr>)))
          else if word = ''-m'' \<or> opt st = ''-m'' then
            (if opt st \<noteq> ''-m''
             then interpret_stream s1 (st\<lparr>opt := ''-m'', notification := WRITE\<rparr>)
             else interpret_stream s1 (add_message word st))
          else if word = ''-r'' then interpret_stream s1 (st\<lparr>notification := READ\<rparr>)
          else if word = ''-c'' then interpret_stream s1 (st\<lparr>notification := CLOSE\<rparr>)
          else Inr None)"
  by pat_completeness auto
termination
  by (relation "measure (\<lambda>(s, st). length s)") (auto dest!: next_word_shorter)

declare interpret_stream.simps [simp del]

text \<open>The same loop over the list of words: the grammar of request lines, for the proofs.\<close>

fun interpret_words :: "string list \<Rightarrow> arguments \<Rightarrow> arguments option outcome" where
  "interpret_words [] st = Inr (Some st)"
| "interpret_words (w # ws) st =
     (if w = ''-i'' then
        (case ws of
           [] \<Rightarrow> Inl (Uncaught ''missing ip in arguments'')
         | a # ws' \<Rightarrow>
             (case validateAddrTCP a of
                Inl u \<Rightarrow> Inl u
              | Inr addr \<Rightarrow>
                  interpret_words ws' (st\<lparr>arg_ip := addr_ip addr, arg_port := addr_port addr\<rparr>)))
      else if w = ''-f'' then
        (case ws of
           [] \<Rightarrow> Inl (Uncaught ''missing file descriptor number'')
         | a # ws' \<Rightarrow>
             interpret_words ws' (case parse_fd a of Inl _ \<Rightarrow> st | Inr fd \<Rightarrow> st\<lparr>arg_fd := fd\<rparr>))
      else if opt st = ''-m'' then interpret_words ws (add_message w st)
      else if w = ''-m'' then interpret_words ws (st\<lparr>opt := ''-m'', notification := WRITE\<rparr>)
      else if w = ''-r'' then interpret_words ws (st\<lparr>notification := READ\<rparr>)
      else if w = ''-c'' then interpret_words ws (st\<lparr>notification := CLOSE\<rparr>)
      else Inr None)"

lemma words_unfold: "words s = (case next_word s of None \<Rightarrow> [] | Some (w, r) \<Rightarrow> w # words r)"
  by (rule words.simps)

lemma interpret_stream_line: "interpret_stream s st = interpret_words (words s) st"
proof (induction s st rule: interpret_stream.induct)
  case (1 s st)
  show ?case
  proof (cases "next_word s")
    case None
    then show ?thesis by (simp add: interpret_stream.simps[of s] words_unfold[of s])
  next
    case (Some p)
    then obtain w s1 where w: "next_word s = Some (w, s1)" by (cases p) auto
    show ?thesis
    proof (cases "next_word s1")
      case None
      with 1 w show ?thesis
        by (simp add: interpret_stream.simps[of s] words_unfold[of s] words_unfold[of s1])
    next
      case (Some p1)
      then obtain a s2 where "next_word s1 = Some (a, s2)" by (cases p1) auto
      with 1 w show ?thesis
        by (auto simp: interpret_stream.simps[of s] words_unfold[of s] words_unfold[of s1]
            split: sum.split)
    qed
  qed
qed

text \<open>Reading the line from the stream, word by word inside the loop, is the same as splitting
  it at white space first: how much white space separates the arguments does not matter.\<close>

theorem interpret_stream_words: "interpret_stream s st = interpret_words (words s) st"
  by (rule interpret_stream_line)

lemma interpret_words_append:
  "interpret_words ws st = Inr (Some st') \<Longrightarrow>
    interpret_words (ws @ us) st = interpret_words us st'"
proof (induction ws st rule: interpret_words.induct)
  case (2 w ws st)
  show ?case
  proof (cases "w = ''-i'' \<or> w = ''-f''")
    case True
    with 2(7) obtain a ws' where ws: "ws = a # ws'" by (cases ws) auto
    show ?thesis
    proof (cases "w = ''-i''")
      case i: True
      with 2(7) ws obtain addr where "validateAddrTCP a = Inr addr"
        by (cases "validateAddrTCP a") auto
      with 2(1) 2(7) i ws show ?thesis by simp
    next
      case False
      with True 2(2) 2(7) ws show ?thesis by simp
    qed
  next
    case False
    with 2(3-7) show ?thesis
      by (cases "opt st = ''-m''") (auto split: if_splits)
  qed
qed simp

text \<open>
  What stops the loop, at the words \<open>ws\<close> that are left: an option without its value, or an address
  that overruns the array of octets.
\<close>

definition stops_at :: "string list \<Rightarrow> stop \<Rightarrow> bool" where
  "stops_at ws x \<longleftrightarrow>
     ws = [''-i''] \<and> x = Uncaught ''missing ip in arguments'' \<or>
     ws = [''-f''] \<and> x = Uncaught ''missing file descriptor number'' \<or>
     (\<exists>a us. ws = ''-i'' # a # us \<and> validateAddrTCP a = Inl x)"

lemma stops_at_stop: "stops_at ws x \<Longrightarrow> interpret_words ws st = Inl x"
  by (auto simp: stops_at_def)

lemma interpret_words_stop_at:
  "interpret_words ws st = Inl x \<Longrightarrow>
    \<exists>pre st' post. ws = pre @ post \<and> interpret_words pre st = Inr (Some st') \<and> stops_at post x"
proof (induction ws st rule: interpret_words.induct)
  case (2 w ws st)
  show ?case
  proof (cases "stops_at (w # ws) x")
    case True
    then show ?thesis by (intro exI[of _ "[]"]) simp
  next
    case go: False
    show ?thesis
    proof (cases "w = ''-i'' \<or> w = ''-f''")
      case True
      with go "2.prems" obtain a us where ws: "ws = a # us" by (cases ws) (auto simp: stops_at_def)
      show ?thesis
      proof (cases "w = ''-i''")
        case i: True
        with go "2.prems" ws obtain addr where v: "validateAddrTCP a = Inr addr"
          by (cases "validateAddrTCP a") (auto simp: stops_at_def)
        with "2.IH"(1)[OF i ws v] "2.prems" i ws obtain pre st' post where
          "us = pre @ post" "interpret_words (''-i'' # a # pre) st = Inr (Some st')" "stops_at post x" by auto
        with i ws show ?thesis by (intro exI[of _ "''-i'' # a # pre"]) auto
      next
        case False
        with True have f: "w = ''-f''" by simp
        with "2.IH"(2)[OF False f ws] "2.prems" ws obtain pre st' post where
          "us = pre @ post" "interpret_words (''-f'' # a # pre) st = Inr (Some st')" "stops_at post x" by auto
        with f ws show ?thesis by (intro exI[of _ "''-f'' # a # pre"]) auto
      qed
    next
      case False
      then have "\<exists>pre st' post. ws = pre @ post \<and> interpret_words (w # pre) st = Inr (Some st') \<and> stops_at post x"
        using "2.IH"(3-6) "2.prems" by (cases "opt st = ''-m''") (auto split: if_split_asm)
      then show ?thesis by (metis append_Cons)
    qed
  qed
qed simp

lemma interpret_words_stop_iff:
  "interpret_words ws st = Inl x \<longleftrightarrow>
    (\<exists>pre st' post. ws = pre @ post \<and> interpret_words pre st = Inr (Some st') \<and> stops_at post x)"
  using interpret_words_stop_at by (auto simp: interpret_words_append stops_at_stop)

section \<open>Well-formed arguments\<close>

text \<open>
  What the variables of \<^verbatim>\<open>interpretRequest\<close> can hold after its loop: an address that was
  accepted or none, a descriptor that fits \<^verbatim>\<open>int\<close>, a message only with the option for it, and
  a write request exactly when that option was read.
\<close>

definition well_formed :: "arguments \<Rightarrow> bool" where
  "well_formed st \<longleftrightarrow>
     (opt st = [] \<or> opt st = ''-m'') \<and> (notification st = WRITE \<longleftrightarrow> opt st = ''-m'') \<and>
     (arg_msg st \<noteq> [] \<longrightarrow> opt st = ''-m'') \<and>
     (arg_ip st \<noteq> [] \<longrightarrow> valid_ip (arg_ip st) \<and> CHR '':'' \<notin> set (arg_ip st) \<and> arg_port st \<noteq> 0) \<and>
     - 2147483648 \<le> arg_fd st \<and> arg_fd st \<le> 2147483647"

lemma well_formed_none: "well_formed no_arguments"
  by (simp add: well_formed_def no_arguments_def bot_req_def fresh)

lemma parse_fd_bounds: "parse_fd s = Inr v \<Longrightarrow> - 2147483648 \<le> v \<and> v \<le> 2147483647"
  by (auto simp: parse_fd_def from_chars_int_def from_chars_unsigned_def Let_def
      split: list.splits if_splits sum.splits)

lemma parse_port_nonzero: "parse_port s = Inr v \<Longrightarrow> v \<noteq> 0 \<Longrightarrow> (of_nat v :: 16 word) \<noteq> 0"
proof -
  assume "parse_port s = Inr v" and "v \<noteq> 0"
  then have "v \<le> 65535" by (auto simp: parse_port_def from_chars_unsigned_def Let_def split: if_splits)
  with \<open>v \<noteq> 0\<close> show ?thesis by (auto simp: word_of_nat_eq_0_iff dest: dvd_imp_le)
qed

lemma validated_address:
  "validateAddrTCP a = Inr addr \<Longrightarrow> addr_ip addr \<noteq> [] \<Longrightarrow>
    valid_ip (addr_ip addr) \<and> CHR '':'' \<notin> set (addr_ip addr) \<and> addr_port addr \<noteq> 0"
  by (cases a rule: colon_cases)
    (auto simp: validateAddrTCP_no_colon validateAddrTCP_colon check_octets_valid[symmetric]
      dest: parse_port_nonzero split: sum.splits if_splits)

text \<open>One word keeps the arguments well-formed: the cases of the loop's body.\<close>

lemma well_formed_word:
  assumes "well_formed st"
  shows "validateAddrTCP a = Inr addr \<Longrightarrow>
      well_formed (st\<lparr>arg_ip := addr_ip addr, arg_port := addr_port addr\<rparr>)"
    and "well_formed (case parse_fd a of Inl _ \<Rightarrow> st | Inr fd \<Rightarrow> st\<lparr>arg_fd := fd\<rparr>)"
    and "opt st = ''-m'' \<Longrightarrow> well_formed (add_message w st)"
    and "well_formed (st\<lparr>opt := ''-m'', notification := WRITE\<rparr>)"
    and "opt st \<noteq> ''-m'' \<Longrightarrow> well_formed (st\<lparr>notification := READ\<rparr>)"
    and "opt st \<noteq> ''-m'' \<Longrightarrow> well_formed (st\<lparr>notification := CLOSE\<rparr>)"
  using assms validated_address[of a addr] parse_fd_bounds[of a]
  by (auto simp: well_formed_def add_message_def split: sum.splits)

lemma interpret_words_typed:
  "interpret_words ws st = Inr (Some st') \<Longrightarrow> well_formed st \<Longrightarrow> well_formed st'"
proof (induction ws st arbitrary: st' rule: interpret_words.induct)
  case (2 w ws st)
  note wf = well_formed_word[OF "2.prems"(2)]
  consider "w = ''-i''" | "w = ''-f''" | "w \<noteq> ''-i''" "w \<noteq> ''-f''" by blast
  then show ?case
  proof cases
    case 1
    with "2.prems" obtain a ws' addr where a: "ws = a # ws'" "validateAddrTCP a = Inr addr"
      by (auto split: list.splits sum.splits)
    with "2.IH"(1)[OF 1 a(1,2)] "2.prems"(1) 1 wf(1)[OF a(2)] show ?thesis by simp
  next
    case 2
    with "2.prems" obtain a ws' where a: "ws = a # ws'" by (auto split: list.splits)
    with "2.IH"(2)[OF _ 2 a] "2.prems"(1) 2 wf(2)[of a] show ?thesis by simp
  next
    case 3
    with "2.prems"(1) show ?thesis
      by (cases "opt st = ''-m''")
        (auto intro: "2.IH"(3-6) wf(3-6) split: if_split_asm)
  qed
qed simp

text \<open>C20: every line that is understood yields well-formed arguments: the address that the peers get is
  empty or one that passed the check, with a port other than zero; the descriptor fits an
  \<^verbatim>\<open>int\<close>; the request is a write exactly when the line has the option for a message, and only
  then there is a message.\<close>

theorem interpret_stream_typed:
  assumes "interpret_stream s no_arguments = Inr (Some st)"
  shows "well_formed st"
  using interpret_words_typed[of "words s" no_arguments st] assms well_formed_none
  by (simp add: interpret_stream_line)

theorem interpret_stream_typed_witness:
  "well_formed (no_arguments\<lparr>arg_fd := -7, notification := CLOSE\<rparr>)"
proof -
  have "interpret_stream ''-f -7 -c'' no_arguments =
      Inr (Some (no_arguments\<lparr>arg_fd := -7, notification := CLOSE\<rparr>))"
    by (simp add: interpret_stream.simps next_word_def is_space_def parse_fd_def from_chars_int_def
        from_chars_unsigned_def is_digit_def digit_val_def no_arguments_def)
  then show ?thesis by (rule interpret_stream_typed)
qed

section \<open>Lines that the program writes itself\<close>

lemma digit_not_space: "is_digit c \<Longrightarrow> \<not> is_space c"
  by (simp add: is_digit_def is_space_def)

lemma int_to_string_word: "is_word (int_to_string i)"
  using nat_to_string_digits nat_to_string_not_Nil
  by (auto simp: is_word_def int_to_string_def is_space_def dest!: digit_not_space nat_to_string_digits)

lemma option_words [simp]:
  "is_word ''-i''" "is_word ''-f''" "is_word ''-m''" "is_word ''-r''" "is_word ''-c''"
  by (simp_all add: is_word_def is_space_def)

lemma event_request_unwords:
  "event_request (fd, ev) = unwords [''-f'', int_to_string fd, if hang_up ev then ''-c'' else ''-r'']"
  by (simp add: event_request_def Let_def)

lemma event_request_read:
  assumes "- 2147483648 \<le> fd" and "fd \<le> 2147483647"
  shows "interpret_stream (event_request (fd, ev)) no_arguments =
    Inr (Some (no_arguments\<lparr>arg_fd := fd, notification := if hang_up ev then CLOSE else READ\<rparr>))"
proof -
  have "words (event_request (fd, ev)) = [''-f'', int_to_string fd, if hang_up ev then ''-c'' else ''-r'']"
    unfolding event_request_unwords by (rule words_unwords) (simp add: int_to_string_word)
  with assms show ?thesis
    by (simp add: interpret_stream_line parse_fd_def int_text.dec_enc no_arguments_def)
qed

text \<open>C31: what the epoll thread writes, the end point reads back: for every descriptor that an
  \<^verbatim>\<open>int\<close> can hold, the line made for an event parses to that descriptor and to a close or a
  read request, with no address and no message.\<close>

theorem event_request_roundtrip:
  assumes "- 2147483648 \<le> fd" and "fd \<le> 2147483647"
  shows "interpret_stream (event_request (fd, ev)) no_arguments =
    Inr (Some (no_arguments\<lparr>arg_fd := fd, notification := if hang_up ev then CLOSE else READ\<rparr>))"
  by (rule event_request_read[OF assms])

theorem event_request_roundtrip_witness:
  "interpret_stream (event_request (7, 0x2010)) no_arguments =
    Inr (Some (no_arguments\<lparr>arg_fd := 7, notification := CLOSE\<rparr>))"
  using event_request_roundtrip[of 7 "0x2010"] by (simp add: hang_up_def epoll_bits)

section \<open>Messages\<close>

lemma interpret_words_message:
  assumes "opt st = ''-m''" and "\<forall>w \<in> set ws. w \<noteq> ''-i'' \<and> w \<noteq> ''-f''"
  shows "interpret_words ws st = Inr (Some (fold add_message ws st))"
  using assms by (induction ws arbitrary: st) (auto simp: add_message_def)

lemma fold_add_message:
  assumes "\<forall>w \<in> set ws. is_word w" and "\<forall>w \<in> set vs. is_word w"
  shows "fold add_message ws (st\<lparr>arg_msg := unwords vs\<rparr>) = st\<lparr>arg_msg := unwords (vs @ ws)\<rparr>"
  using assms
proof (induction ws arbitrary: vs)
  case (Cons w ws)
  have "add_message w (st\<lparr>arg_msg := unwords vs\<rparr>) = st\<lparr>arg_msg := unwords (vs @ [w])\<rparr>"
    using Cons.prems(2) by (auto simp: add_message_def unwords_snoc unwords_Nil_iff)
  with Cons.IH[of "vs @ [w]"] Cons.prems show ?case by simp
qed simp

lemma message_line:
  assumes "is_word a" and "validateAddrTCP a = Inr addr"
    and "\<forall>w \<in> set ws. is_word w \<and> w \<noteq> ''-i'' \<and> w \<noteq> ''-f''"
  shows "interpret_stream (unwords (''-i'' # a # ''-m'' # ws)) no_arguments =
    Inr (Some \<lparr>notification = WRITE, opt = ''-m'', arg_ip = addr_ip addr, arg_fd = CLOSED,
      arg_port = addr_port addr, arg_msg = unwords ws\<rparr>)"
proof -
  let ?st = "no_arguments\<lparr>opt := ''-m'', notification := WRITE, arg_ip := addr_ip addr,
    arg_port := addr_port addr\<rparr>"
  have "interpret_stream (unwords (''-i'' # a # ''-m'' # ws)) no_arguments =
      interpret_words (''-i'' # a # ''-m'' # ws) no_arguments"
    unfolding interpret_stream_line by (subst words_unwords) (use assms in auto)
  also have "\<dots> = interpret_words ws ?st"
    using assms(2) by (simp add: no_arguments_def)
  also have "\<dots> = Inr (Some (fold add_message ws (?st\<lparr>arg_msg := unwords []\<rparr>)))"
    using assms(3) by (subst interpret_words_message) (auto simp: no_arguments_def)
  also have "fold add_message ws (?st\<lparr>arg_msg := unwords []\<rparr>) = ?st\<lparr>arg_msg := unwords ([] @ ws)\<rparr>"
    by (rule fold_add_message) (use assms(3) in auto)
  finally show ?thesis by (simp add: no_arguments_def)
qed

text \<open>A message keeps its words: after \<^verbatim>\<open>-m\<close> every further word of the line becomes
  part of the message, joined by single spaces, even a word that is an option such as
  \<^verbatim>\<open>-c\<close> or a second \<^verbatim>\<open>-m\<close>; only \<^verbatim>\<open>-i\<close> and \<^verbatim>\<open>-f\<close> do not belong to it.
  The request is a write to the given address.\<close>

theorem message_line_roundtrip:
  assumes "is_word a" and "validateAddrTCP a = Inr addr"
    and "\<forall>w \<in> set ws. is_word w \<and> w \<noteq> ''-i'' \<and> w \<noteq> ''-f''"
  shows "interpret_stream (unwords (''-i'' # a # ''-m'' # ws)) no_arguments =
    Inr (Some \<lparr>notification = WRITE, opt = ''-m'', arg_ip = addr_ip addr, arg_fd = CLOSED,
      arg_port = addr_port addr, arg_msg = unwords ws\<rparr>)"
  by (rule message_line[OF assms])

lemma demo_line_address:
  "validateAddrTCP ''10.0.0.1:80'' = Inr \<lparr>addr_ip = ''10.0.0.1'', addr_port = 80\<rparr>"
  by (simp add: validateAddrTCP_def tokens_def parse_port_def parse_octet_def
      from_chars_unsigned_def is_digit_def digit_val_def)

theorem message_line_roundtrip_witness:
  "interpret_stream ''-i 10.0.0.1:80 -m hi -c you'' no_arguments =
    Inr (Some \<lparr>notification = WRITE, opt = ''-m'', arg_ip = ''10.0.0.1'', arg_fd = CLOSED,
      arg_port = 80, arg_msg = ''hi -c you''\<rparr>)"
  using message_line_roundtrip[OF _ demo_line_address, of "[''hi'', ''-c'', ''you'']"]
  by (simp add: is_word_def is_space_def)

text \<open>An option that lacks its value ends the process: a line whose arguments are understood so
  far and that ends in \<^verbatim>\<open>-i\<close> or \<^verbatim>\<open>-f\<close> raises an exception nobody catches.\<close>

theorem dangling_option_raises:
  assumes "interpret_words ws no_arguments = Inr (Some st)" and "\<forall>w \<in> set ws. is_word w"
  shows "interpret_stream (unwords (ws @ [''-i''])) no_arguments =
      Inl (Uncaught ''missing ip in arguments'') \<and>
    interpret_stream (unwords (ws @ [''-f''])) no_arguments =
      Inl (Uncaught ''missing file descriptor number'')"
proof -
  have w: "words (unwords (ws @ [x])) = ws @ [x]" if "is_word x" for x
    by (rule words_unwords) (use assms(2) that in auto)
  show ?thesis
    by (simp add: interpret_stream_line w interpret_words_append[OF assms(1)])
qed

theorem dangling_option_raises_witness:
  "interpret_stream ''-r -i'' no_arguments = Inl (Uncaught ''missing ip in arguments'')"
  using dangling_option_raises[of "[''-r'']"] by (simp add: no_arguments_def)

end
