(* ===== verification/Peer_Connect.thy ===== *)
theory Peer_Connect
  imports Peer
begin

unbundle bit_operations_syntax

text \<open>
  Opening and closing the connection of a peer: \<^verbatim>\<open>IO::connectTCP\<close>,
  \<^verbatim>\<open>IO::setNonBlock\<close>, \<^verbatim>\<open>IO::connect\<close>, \<^verbatim>\<open>IO::close\<close> and
  \<^verbatim>\<open>IPeer::notifyManager\<close>.
\<close>

section \<open>The code\<close>

text \<open>
  The answer to \<^verbatim>\<open>F_GETFL\<close> is used even when it is -1, as in the code.
\<close>

definition setNonBlock :: "env \<Rightarrow> int \<Rightarrow> trace \<Rightarrow> int \<times> trace" where
  "setNonBlock e fd tr =
     (let (a, tr1) = sys e (Fcntl_getfl fd) tr;
          flags = ret a OR O_NONBLOCK;
          (b, tr2) = sys e (Fcntl_setfl fd flags) tr1
      in (ret b, tr2))"

text \<open>
  How an iteration of the loop over the addresses ends: \<open>Next fd\<close> is \<^verbatim>\<open>continue\<close> and
  \<open>Break fd\<close> is \<^verbatim>\<open>break\<close>, with the value the variable \<^verbatim>\<open>fd\<close> then has.
\<close>

datatype attempt = Next int | Break int

text \<open>Binding to the local address, when there is one; \<open>False\<close> when it failed and \<^verbatim>\<open>fd\<close> was closed.\<close>

definition bind_local :: "env \<Rightarrow> IO \<Rightarrow> int \<Rightarrow> trace \<Rightarrow> bool \<times> trace" where
  "bind_local e io fd tr =
     (if locIp io \<noteq> [] \<or> locPort io \<noteq> 0
      then (let (a, tr1) = sys e (Inet_pton (locIp io)) tr
            in if ret a \<noteq> 1 then (False, snd (closeFd e fd tr1))
               else (let (b, tr2) = sys e (Bind fd (locIp io) (locPort io)) tr1
                     in if ret b \<noteq> 0 then (False, snd (closeFd e fd tr2)) else (True, tr2)))
      else (True, tr))"

text \<open>Waiting ten seconds for a connection in progress.\<close>

definition await_connect :: "env \<Rightarrow> int \<Rightarrow> trace \<Rightarrow> attempt \<times> trace" where
  "await_connect e fd tr =
     (let (a, tr1) = sys e (Select_write fd 10) tr
      in if ret a = -1 then (Next fd, snd (closeFd e fd tr1))
         else if ret a = 0 then (Next fd, snd (closeFd e fd tr1))
         else if writable a
         then (let (b, tr2) = sys e (Getsockopt_error fd) tr1
               in if ret b = -1 then (Next CLOSED, snd (closeFd e fd tr2))
                  else if optval b \<noteq> 0 then (Next CLOSED, snd (closeFd e fd tr2))
                  else (Break fd, tr2))
         else (Next CLOSED, snd (closeFd e fd tr1)))"

text \<open>
  One iteration of the loop, in three parts: from the switch to non-blocking mode on, from the
  socket option on, and the whole of it.
\<close>

definition start_connect :: "env \<Rightarrow> addrinfo \<Rightarrow> int \<Rightarrow> trace \<Rightarrow> attempt \<times> trace" where
  "start_connect e ai fd tr =
     (let (n, tr1) = setNonBlock e fd tr
      in if n = -1 then (Next fd, tr1)
         else
           let (c, tr2) = sys e (Connect fd (ai_addr ai)) tr1
           in if ret c = -1
              then (if errno c \<noteq> EINPROGRESS then (Next fd, snd (closeFd e fd tr2))
                    else await_connect e fd tr2)
              else (Break fd, tr2))"

definition use_socket :: "env \<Rightarrow> IO \<Rightarrow> addrinfo \<Rightarrow> int \<Rightarrow> trace \<Rightarrow> attempt \<times> trace" where
  "use_socket e io ai fd tr =
     (let (a, tr1) = sys e (Setsockopt_reuseaddr fd) tr
      in if ret a = -1 then (Next fd, snd (closeFd e fd tr1))
         else
           let (bound, tr2) = bind_local e io fd tr1
           in if \<not> bound then (Next fd, tr2) else start_connect e ai fd tr2)"

definition try_address :: "env \<Rightarrow> IO \<Rightarrow> addrinfo \<Rightarrow> trace \<Rightarrow> attempt \<times> trace" where
  "try_address e io ai tr =
     (let (_, tr1) = sys e (Getnameinfo (ai_addr ai)) tr;
          (s, tr2) = sys e (Socket (ai_family ai) (ai_socktype ai) (ai_protocol ai)) tr1
      in if ret s = CLOSED then (Next CLOSED, tr2) else use_socket e io ai (ret s) tr2)"

fun try_addresses :: "env \<Rightarrow> IO \<Rightarrow> addrinfo list \<Rightarrow> int \<Rightarrow> trace \<Rightarrow> int \<times> trace" where
  "try_addresses e io [] fd tr = (fd, tr)"
| "try_addresses e io (ai # ais) fd tr =
     (case try_address e io ai tr of
        (Next fd', tr') \<Rightarrow> try_addresses e io ais fd' tr'
      | (Break fd', tr') \<Rightarrow> (fd', tr'))"

text \<open>
  When \<^verbatim>\<open>getaddrinfo\<close> fails the address list stays the null pointer and the loop does
  nothing.
\<close>

definition connectTCP :: "env \<Rightarrow> IO \<Rightarrow> trace \<Rightarrow> int \<times> trace" where
  "connectTCP e io tr =
     (let (g, tr1) = sys e (Getaddrinfo (peer_ip io) (nat_to_string (unat (peer_port io)))) tr
      in try_addresses e io (if ret g = 0 then infos g else []) CLOSED tr1)"

text \<open>
  The manager is the object behind \<^verbatim>\<open>_manager\<close>: its \<^verbatim>\<open>appendNotificationNode\<close> takes
  a descriptor and the event mask.
\<close>

type_synonym manager = "int \<Rightarrow> 32 word \<Rightarrow> trace \<Rightarrow> bool \<times> trace"

definition default_events :: "32 word" where
  "default_events = EPOLLIN OR EPOLLET OR EPOLLRDHUP"

definition notifyManager :: "manager \<Rightarrow> IO \<Rightarrow> trace \<Rightarrow> trace" where
  "notifyManager mgr io tr = snd (mgr (peer_fd io) default_events tr)"

definition IO_connect :: "env \<Rightarrow> manager \<Rightarrow> IO \<Rightarrow> trace \<Rightarrow> bool \<times> IO \<times> trace" where
  "IO_connect e mgr io tr =
     (let (fd, tr1) = connectTCP e io tr; io1 = io\<lparr>peer_fd := fd\<rparr>
      in if peer_fd io1 \<noteq> CLOSED
         then (let (ok, t, tr2) = (if ssl (tls io1) = 0 then (True, tls io1, tr1)
                                   else tls_connect e (peer_fd io1) (tls io1) tr1);
                   io2 = io1\<lparr>tls := t\<rparr>
               in if ok then (True, io2, notifyManager mgr io2 tr2) else (False, io2, tr2))
         else (False, io1, tr1))"

definition IO_close :: "env \<Rightarrow> IO \<Rightarrow> trace \<Rightarrow> bool \<times> IO \<times> trace" where
  "IO_close e io tr =
     (let (_, tr1) = closeFd e (peer_fd io) tr in (False, io\<lparr>peer_fd := CLOSED\<rparr>, tr1))"

section \<open>Sockets are non-blocking before they connect\<close>

text \<open>
  In a run of calls, each \<^verbatim>\<open>connect\<close> comes right after a successful \<^verbatim>\<open>F_SETFL\<close> on
  the same descriptor with the non-blocking bit set.
\<close>

fun sets_nonblock :: "int \<Rightarrow> (sysc \<times> ans) option \<Rightarrow> bool" where
  "sets_nonblock fd (Some (Fcntl_setfl fd' fl, a)) \<longleftrightarrow> fd' = fd \<and> bit fl 11 \<and> ret a \<noteq> -1"
| "sets_nonblock fd _ \<longleftrightarrow> False"

fun nonblocking_from :: "(sysc \<times> ans) option \<Rightarrow> trace \<Rightarrow> bool" where
  "nonblocking_from prev [] \<longleftrightarrow> True"
| "nonblocking_from prev (x # ts) \<longleftrightarrow>
     (case fst x of Connect fd _ \<Rightarrow> sets_nonblock fd prev | _ \<Rightarrow> True) \<and>
     nonblocking_from (Some x) ts"

lemma sets_nonblock_None [simp]: "\<not> sets_nonblock fd None"
  by simp

lemma nonblocking_from_weaken: "nonblocking_from None ts \<Longrightarrow> nonblocking_from p ts"
  by (cases ts) (auto split: sysc.splits)

lemma nonblocking_from_append:
  "nonblocking_from p xs \<Longrightarrow> nonblocking_from None ys \<Longrightarrow> nonblocking_from p (xs @ ys)"
  by (induction p xs rule: nonblocking_from.induct) (auto intro: nonblocking_from_weaken)

interpretation nonblocking: run_property "nonblocking_from None"
  by unfold_locales (auto intro: nonblocking_from_append)

lemma bit_O_NONBLOCK [simp]: "bit (x OR O_NONBLOCK) 11"
  by (simp add: bit_or_iff)

lemma setNonBlock_run:
  "setNonBlock e fd tr = (n, tr') \<Longrightarrow>
    \<exists>a b fl. tr' = tr @ [(Fcntl_getfl fd, a), (Fcntl_setfl fd fl, b)] \<and> ret b = n \<and> bit fl 11"
  by (auto simp: setNonBlock_def Let_def split: prod.splits dest!: sysD)

lemma await_connect_nonblocking:
  "await_connect e fd tr = (r, tr') \<Longrightarrow> extends (nonblocking_from None) tr tr'"
  by (auto simp: await_connect_def Let_def split: prod.splits if_splits dest!: sysD)

lemma bind_local_nonblocking:
  "bind_local e io fd tr = (r, tr') \<Longrightarrow> extends (nonblocking_from None) tr tr'"
  by (auto simp: bind_local_def Let_def split: prod.splits if_splits dest!: sysD)

lemma start_connect_nonblocking:
  assumes "start_connect e ai fd tr = (r, tr')"
  shows "extends (nonblocking_from None) tr tr'"
proof -
  obtain n tr1 where n: "setNonBlock e fd tr = (n, tr1)" by fastforce
  obtain c tr2 where c: "sys e (Connect fd (ai_addr ai)) tr1 = (c, tr2)" by fastforce
  from setNonBlock_run[OF n] sysD[OF c] have
    "extends (nonblocking_from None) tr tr1" "n \<noteq> -1 \<Longrightarrow> extends (nonblocking_from None) tr tr2"
    by auto
  with assms n c show ?thesis
    by (auto simp: start_connect_def split: if_splits
        intro: nonblocking.add nonblocking.trans await_connect_nonblocking)
qed

lemma use_socket_nonblocking:
  assumes "use_socket e io ai fd tr = (r, tr')"
  shows "extends (nonblocking_from None) tr tr'"
proof -
  obtain a tr1 where a: "sys e (Setsockopt_reuseaddr fd) tr = (a, tr1)" by fastforce
  obtain b tr2 where b: "bind_local e io fd tr1 = (b, tr2)" by fastforce
  from sysD[OF a] bind_local_nonblocking[OF b] have
    "extends (nonblocking_from None) tr tr1" "extends (nonblocking_from None) tr tr2"
    by (auto intro: nonblocking.trans[of _ tr1])
  with assms a b show ?thesis
    by (auto simp: use_socket_def split: if_splits
        intro: nonblocking.add nonblocking.trans start_connect_nonblocking)
qed

lemma try_address_nonblocking:
  assumes "try_address e io ai tr = (r, tr')"
  shows "extends (nonblocking_from None) tr tr'"
proof -
  obtain a tr1 where a: "sys e (Getnameinfo (ai_addr ai)) tr = (a, tr1)" by fastforce
  obtain s tr2 where s: "sys e (Socket (ai_family ai) (ai_socktype ai) (ai_protocol ai)) tr1 = (s, tr2)"
    by fastforce
  from sysD[OF a] sysD[OF s] have "extends (nonblocking_from None) tr tr2" by simp
  with assms a s show ?thesis
    by (auto simp: try_address_def split: if_splits intro: nonblocking.trans use_socket_nonblocking)
qed

lemma try_addresses_nonblocking:
  "extends (nonblocking_from None) tr (snd (try_addresses e io ais fd tr))"
proof (induction ais arbitrary: fd tr)
  case (Cons ai ais)
  obtain r tr1 where t: "try_address e io ai tr = (r, tr1)" by fastforce
  then have "extends (nonblocking_from None) tr tr1" by (rule try_address_nonblocking)
  with t Cons show ?case by (cases r) (auto intro: nonblocking.trans)
qed simp

lemma connectTCP_nonblocking: "extends (nonblocking_from None) tr (snd (connectTCP e io tr))"
proof -
  obtain g tr1 where g: "sys e (Getaddrinfo (peer_ip io) (nat_to_string (unat (peer_port io)))) tr
      = (g, tr1)" by fastforce
  from sysD[OF g] have "extends (nonblocking_from None) tr tr1" by simp
  then show ?thesis using g try_addresses_nonblocking
    by (auto simp: connectTCP_def intro: nonblocking.trans)
qed

section \<open>Which descriptors stay open\<close>

text \<open>
  The descriptors open after a run of calls, as a list, when \<open>os\<close> are open before it: a
  successful \<^verbatim>\<open>socket\<close> adds one, \<^verbatim>\<open>close\<close> removes one.
\<close>

fun open_after :: "int list \<Rightarrow> trace \<Rightarrow> int list" where
  "open_after os [] = os"
| "open_after os ((Socket _ _ _, a) # ts) =
     open_after (if ret a = CLOSED then os else ret a # os) ts"
| "open_after os ((Close fd, _) # ts) = open_after (remove1 fd os) ts"
| "open_after os (_ # ts) = open_after os ts"

lemma open_after_append: "open_after os (xs @ ys) = open_after (open_after os xs) ys"
  by (induction os xs rule: open_after.induct) auto

definition setfl_works :: "env \<Rightarrow> bool" where
  "setfl_works e \<longleftrightarrow> (\<forall>tr fd fl. ret (e tr (Fcntl_setfl fd fl)) \<noteq> -1)"

text \<open>\<open>leaves os os'\<close>: the run turns the open descriptors \<open>os\<close> into \<open>os'\<close>.\<close>

definition leaves :: "int list \<Rightarrow> int list \<Rightarrow> trace \<Rightarrow> bool" where
  "leaves os os' ts \<longleftrightarrow> open_after os ts = os'"

lemma leaves_trans:
  "extends (leaves os os1) tr tr1 \<Longrightarrow> extends (leaves os1 os2) tr1 tr2 \<Longrightarrow>
    extends (leaves os os2) tr tr2"
  by (auto simp: extends_def leaves_def open_after_append)

lemma leaves_refl [simp]: "extends (leaves os os) tr tr"
  by (simp add: extends_def leaves_def)

fun attempt_fds :: "attempt \<Rightarrow> int list \<Rightarrow> int list" where
  "attempt_fds (Next _) os = os"
| "attempt_fds (Break fd) os = fd # os"

lemma setNonBlock_works:
  "setfl_works e \<Longrightarrow> fst (setNonBlock e fd tr) \<noteq> -1"
  by (simp add: setNonBlock_def setfl_works_def sys_eq Let_def)

lemma await_connect_leaves:
  "await_connect e fd tr = (r, tr') \<Longrightarrow> extends (leaves (fd # os) (attempt_fds r os)) tr tr'"
  by (auto simp: await_connect_def leaves_def Let_def split: prod.splits if_splits dest!: sysD)

lemma bind_local_leaves:
  "bind_local e io fd tr = (b, tr') \<Longrightarrow>
    extends (leaves (fd # os) (if b then fd # os else os)) tr tr'"
  by (auto simp: bind_local_def Let_def split: prod.splits if_splits dest!: sysD)
    (auto simp: leaves_def)

lemma start_connect_leaves:
  assumes "setfl_works e" and "start_connect e ai fd tr = (r, tr')"
  shows "extends (leaves (fd # os) (attempt_fds r os)) tr tr'"
proof -
  obtain n tr1 where n: "setNonBlock e fd tr = (n, tr1)" by fastforce
  obtain c tr2 where c: "sys e (Connect fd (ai_addr ai)) tr1 = (c, tr2)" by fastforce
  have "n \<noteq> -1" using setNonBlock_works[OF assms(1), of fd tr] n by simp
  moreover from setNonBlock_run[OF n] sysD[OF c] have
    "extends (leaves (fd # os) (fd # os)) tr tr2" "extends (leaves (fd # os) os) tr (snd (closeFd e fd tr2))"
    by (auto simp: leaves_def)
  ultimately show ?thesis using assms(2) n c
    by (auto simp: start_connect_def split: if_splits
        intro: leaves_trans await_connect_leaves simp del: closeFd_eq)
qed

lemma use_socket_leaves:
  assumes "setfl_works e" and "use_socket e io ai fd tr = (r, tr')"
  shows "extends (leaves (fd # os) (attempt_fds r os)) tr tr'"
proof -
  obtain a tr1 where a: "sys e (Setsockopt_reuseaddr fd) tr = (a, tr1)" by fastforce
  obtain b tr2 where b: "bind_local e io fd tr1 = (b, tr2)" by fastforce
  from sysD[OF a] have o: "extends (leaves (fd # os) (fd # os)) tr tr1"
    and cl: "extends (leaves (fd # os) os) tr (snd (closeFd e fd tr1))"
    by (auto simp: leaves_def)
  have bl: "extends (leaves (fd # os) (if b then fd # os else os)) tr tr2"
    using o bind_local_leaves[OF b] by (rule leaves_trans)
  show ?thesis
  proof (cases "ret a = -1")
    case True
    with assms(2) a cl show ?thesis by (auto simp: use_socket_def simp del: closeFd_eq)
  next
    case False
    with assms a b bl show ?thesis
      by (cases b) (auto simp: use_socket_def intro: leaves_trans start_connect_leaves)
  qed
qed

lemma try_address_leaves:
  assumes "setfl_works e" and "try_address e io ai tr = (r, tr')"
  shows "extends (leaves os (attempt_fds r os)) tr tr'"
proof -
  obtain a tr1 where a: "sys e (Getnameinfo (ai_addr ai)) tr = (a, tr1)" by fastforce
  obtain s tr2 where s: "sys e (Socket (ai_family ai) (ai_socktype ai) (ai_protocol ai)) tr1 = (s, tr2)"
    by fastforce
  from sysD[OF a] sysD[OF s] have
    "extends (leaves os (if ret s = CLOSED then os else ret s # os)) tr tr2"
    by (auto simp: leaves_def)
  with assms a s show ?thesis
    by (auto simp: try_address_def split: if_splits intro: leaves_trans use_socket_leaves)
qed

lemma try_address_Break:
  "try_address e io ai tr = (Break fd, tr') \<Longrightarrow> fd \<noteq> CLOSED"
  by (auto simp: try_address_def use_socket_def start_connect_def await_connect_def Let_def
      split: prod.splits if_splits)

lemma try_addresses_leaves:
  assumes "setfl_works e" and "try_addresses e io ais fd tr = (fd', tr')"
  shows "extends (leaves os os) tr tr' \<or>
    fd' \<noteq> CLOSED \<and> extends (leaves os (fd' # os)) tr tr'"
  using assms(2)
proof (induction ais arbitrary: fd tr)
  case Nil
  then show ?case by (simp add: extends_def leaves_def)
next
  case (Cons ai ais)
  obtain r tr1 where t: "try_address e io ai tr = (r, tr1)" by fastforce
  note l = try_address_leaves[OF assms(1) t, of os]
  show ?case
  proof (cases r)
    case (Next f)
    with Cons t have "try_addresses e io ais f tr1 = (fd', tr')" by simp
    from Cons.IH[OF this] l Next show ?thesis by (auto intro: leaves_trans)
  next
    case (Break f)
    with Cons t l try_address_Break[of e io ai tr f tr1] show ?thesis by simp
  qed
qed

lemma connectTCP_leaves:
  assumes "setfl_works e" and "connectTCP e io tr = (fd, tr')"
  shows "extends (leaves os os) tr tr' \<or> fd \<noteq> CLOSED \<and> extends (leaves os (fd # os)) tr tr'"
proof -
  obtain g tr1 where g: "sys e (Getaddrinfo (peer_ip io) (nat_to_string (unat (peer_port io)))) tr
      = (g, tr1)" by fastforce
  from sysD[OF g] have "extends (leaves os os) tr tr1" by (simp add: leaves_def)
  moreover from assms(2) g have
    "try_addresses e io (if ret g = 0 then infos g else []) CLOSED tr1 = (fd, tr')"
    by (simp add: connectTCP_def)
  ultimately show ?thesis using try_addresses_leaves[OF assms(1)] by (blast intro: leaves_trans)
qed

section \<open>A server that refuses\<close>

text \<open>
  Sockets can be made and set up, but every connection attempt fails at once, as it does when
  nothing listens on the port.
\<close>

definition refuses :: "env \<Rightarrow> bool" where
  "refuses e \<longleftrightarrow> (\<forall>tr f t p. ret (e tr (Socket f t p)) \<noteq> CLOSED) \<and>
     (\<forall>tr fd. ret (e tr (Setsockopt_reuseaddr fd)) \<noteq> -1) \<and> setfl_works e \<and>
     (\<forall>tr fd a. ret (e tr (Connect fd a)) = -1 \<and> errno (e tr (Connect fd a)) \<noteq> EINPROGRESS)"

lemma use_socket_refused:
  assumes "refuses e" and "locIp io = []" and "locPort io = 0"
  obtains tr0 a where "use_socket e io ai fd tr = (Next fd, tr0 @ [(Close fd, a)])"
proof -
  obtain o1 tr1 where o1: "sys e (Setsockopt_reuseaddr fd) tr = (o1, tr1)" by fastforce
  obtain n tr2 where n: "setNonBlock e fd tr1 = (n, tr2)" by fastforce
  have "ret o1 \<noteq> -1" using o1 assms(1) by (auto simp: sys_eq refuses_def)
  moreover have "n \<noteq> -1" using n assms(1) setNonBlock_works[of e fd tr1] by (simp add: refuses_def)
  moreover have "ret (e tr2 (Connect fd (ai_addr ai))) = -1"
    "errno (e tr2 (Connect fd (ai_addr ai))) \<noteq> EINPROGRESS"
    using assms(1) by (auto simp: refuses_def)
  ultimately show thesis using o1 n assms(2,3) that
    by (simp add: use_socket_def bind_local_def start_connect_def sys_eq[of e "Connect _ _"])
qed

lemma try_address_refused:
  assumes "refuses e" and "locIp io = []" and "locPort io = 0"
  obtains fd tr0 a where "try_address e io ai tr = (Next fd, tr0 @ [(Close fd, a)])" and "fd \<noteq> CLOSED"
proof -
  obtain a1 tr1 where a1: "sys e (Getnameinfo (ai_addr ai)) tr = (a1, tr1)" by fastforce
  obtain s tr2 where s: "sys e (Socket (ai_family ai) (ai_socktype ai) (ai_protocol ai)) tr1 = (s, tr2)"
    by fastforce
  then have c: "ret s \<noteq> CLOSED" using assms(1) by (auto simp: sys_eq refuses_def)
  obtain tr0 a where "use_socket e io ai (ret s) tr2 = (Next (ret s), tr0 @ [(Close (ret s), a)])"
    using use_socket_refused[OF assms] .
  then show thesis using that[of "ret s" tr0 a] a1 s c by (simp add: try_address_def)
qed

lemma try_addresses_refused:
  assumes "refuses e" and "locIp io = []" and "locPort io = 0" and "ais \<noteq> []"
  shows "\<exists>fd' tr0 a. try_addresses e io ais fd tr = (fd', tr0 @ [(Close fd', a)]) \<and> fd' \<noteq> CLOSED"
  using assms(4)
proof (induction ais arbitrary: fd tr)
  case (Cons ai ais)
  obtain f tr0 a where t: "try_address e io ai tr = (Next f, tr0 @ [(Close f, a)])" "f \<noteq> CLOSED"
    using try_address_refused[OF assms(1-3)] .
  then show ?case using Cons.IH by (cases "ais = []") auto
qed simp

lemma connectTCP_refused:
  assumes "refuses e" and "locIp io = []" and "locPort io = 0"
    and "e tr (Getaddrinfo (peer_ip io) (nat_to_string (unat (peer_port io)))) = g"
    and "ret g = 0" and "infos g \<noteq> []"
  shows "\<exists>fd tr0 a. connectTCP e io tr = (fd, tr0 @ [(Close fd, a)]) \<and> fd \<noteq> CLOSED"
  using try_addresses_refused[OF assms(1-3,6)] assms(4,5)
  by (simp add: connectTCP_def sys_eq)

section \<open>What connectTCP guarantees\<close>

text \<open>C32: no connection attempt can block the peer's thread: every connect that connectTCP issues
  comes directly after a successful F_SETFL on the same descriptor with O_NONBLOCK set.\<close>

theorem connectTCP_only_nonblocking:
  "extends (nonblocking_from None) tr (snd (connectTCP e io tr))"
  by (rule connectTCP_nonblocking)

text \<open>C15: no descriptor is leaked or closed twice by connectTCP as long as F_SETFL works: of the
  sockets it opened either none is still open when it returns, or exactly one, which is the one
  it returns; the descriptors open before the call are untouched.\<close>

theorem connectTCP_no_leak:
  assumes "setfl_works e" and "connectTCP e io tr = (fd, tr')"
  shows "\<exists>run. tr' = tr @ run \<and>
    (open_after os run = os \<or> fd \<noteq> CLOSED \<and> open_after os run = fd # os)"
  using connectTCP_leaves[OF assms, of os] by (auto simp: extends_def leaves_def)

definition demo_address :: addrinfo where
  "demo_address = \<lparr>ai_family = 2, ai_socktype = 1, ai_protocol = 6, ai_addr = ''127.0.0.1:80''\<rparr>"

definition demo_peer :: IO where
  "demo_peer = (IO_fields [] 0 0 new_TLS)\<lparr>peer_ip := ''127.0.0.1'', peer_port := 80\<rparr>"

definition refusing_env :: env where
  "refusing_env tr c =
     (case c of
        Getaddrinfo _ _ \<Rightarrow> (answer 0)\<lparr>infos := [demo_address]\<rparr>
      | Socket _ _ _ \<Rightarrow> answer 5
      | Connect _ _ \<Rightarrow> (answer (-1))\<lparr>errno := 111\<rparr>
      | _ \<Rightarrow> answer 0)"

lemma refusing_env_refuses: "refuses refusing_env"
  by (simp add: refuses_def setfl_works_def refusing_env_def CLOSED_def)

theorem connectTCP_no_leak_witness:
  "setfl_works refusing_env \<and>
   (\<exists>run. snd (connectTCP refusing_env demo_peer []) = run \<and>
     (open_after [3] run = [3] \<or>
      open_after [3] run = fst (connectTCP refusing_env demo_peer []) # [3]))"
proof -
  have s: "setfl_works refusing_env" using refusing_env_refuses by (simp add: refuses_def)
  obtain fd tr' where c: "connectTCP refusing_env demo_peer [] = (fd, tr')" by fastforce
  from connectTCP_no_leak[OF s c, of "[3]"] s c show ?thesis by auto
qed

text \<open>When every address of the server refuses the connection, connectTCP does not report the
  failure: it returns the number of the descriptor it has just closed instead of CLOSED.\<close>

theorem connectTCP_refused_returns_stale:
  assumes "refuses e" and "locIp io = []" and "locPort io = 0"
    and "e tr (Getaddrinfo (peer_ip io) (nat_to_string (unat (peer_port io)))) = g"
    and "ret g = 0" and "infos g \<noteq> []"
  shows "\<exists>fd tr0 a. connectTCP e io tr = (fd, tr0 @ [(Close fd, a)]) \<and> fd \<noteq> CLOSED"
  by (rule connectTCP_refused[OF assms])

lemma connectTCP_refused_demo:
  "\<exists>fd tr0 a. connectTCP refusing_env (demo_peer\<lparr>servant := p\<rparr>) [] = (fd, tr0 @ [(Close fd, a)]) \<and> fd \<noteq> CLOSED"
  by (rule connectTCP_refused[OF refusing_env_refuses])
    (auto simp: demo_peer_def IO_fields_def refusing_env_def)

theorem connectTCP_refused_returns_stale_witness:
  "refuses refusing_env \<and>
   (\<exists>fd tr0 a. connectTCP refusing_env demo_peer [] = (fd, tr0 @ [(Close fd, a)]) \<and> fd \<noteq> CLOSED)"
  using refusing_env_refuses
    connectTCP_refused_returns_stale[OF refusing_env_refuses, of demo_peer "[]"]
  by (simp add: demo_peer_def IO_fields_def refusing_env_def)

section \<open>Connecting and closing a peer\<close>

text \<open>Calls that neither open, connect nor close a socket.\<close>

fun neutral :: "sysc \<Rightarrow> bool" where
  "neutral (Socket _ _ _) = False"
| "neutral (Connect _ _) = False"
| "neutral (Close _) = False"
| "neutral _ = True"

lemma neutral_leaves: "list_all (\<lambda>x. neutral (fst x)) ts \<Longrightarrow> leaves os os ts"
proof (induction ts)
  case (Cons x ts)
  then show ?case by (cases x; cases "fst x") (auto simp: leaves_def)
qed (simp add: leaves_def)

lemma neutral_nonblocking: "list_all (\<lambda>x. neutral (fst x)) ts \<Longrightarrow> nonblocking_from p ts"
  by (induction ts arbitrary: p) (auto split: sysc.splits)

lemma tls_call_neutral: "tls_call c \<Longrightarrow> neutral c"
  by (cases c) auto

lemmas keep_clear_neutral = emits_mono[OF keep_clear_tls_call tls_call_neutral]

lemmas handle_io_failure_neutral = emits_mono[OF handle_io_failure_tls_call tls_call_neutral]

section \<open>Calls on descriptors\<close>

text \<open>A call that takes descriptors, of sockets or of epoll, takes none that is \<open>CLOSED\<close>.\<close>

fun real_fd :: "sysc \<Rightarrow> bool" where
  "real_fd (Setsockopt_reuseaddr fd) \<longleftrightarrow> fd \<noteq> CLOSED"
| "real_fd (Bind fd _ _) \<longleftrightarrow> fd \<noteq> CLOSED"
| "real_fd (Fcntl_getfl fd) \<longleftrightarrow> fd \<noteq> CLOSED"
| "real_fd (Fcntl_setfl fd _) \<longleftrightarrow> fd \<noteq> CLOSED"
| "real_fd (Connect fd _) \<longleftrightarrow> fd \<noteq> CLOSED"
| "real_fd (Select_write fd _) \<longleftrightarrow> fd \<noteq> CLOSED"
| "real_fd (Getsockopt_error fd) \<longleftrightarrow> fd \<noteq> CLOSED"
| "real_fd (Close fd) \<longleftrightarrow> fd \<noteq> CLOSED"
| "real_fd (Read fd _) \<longleftrightarrow> fd \<noteq> CLOSED"
| "real_fd (Write fd _) \<longleftrightarrow> fd \<noteq> CLOSED"
| "real_fd (Epoll_ctl_add ep fd _) \<longleftrightarrow> ep \<noteq> CLOSED \<and> fd \<noteq> CLOSED"
| "real_fd (SSL_set_fd _ fd) \<longleftrightarrow> fd \<noteq> CLOSED"
| "real_fd _ \<longleftrightarrow> True"

text \<open>The calls of \<^verbatim>\<open>connectTCP\<close>: the resolver, and sockets other than \<open>CLOSED\<close>.\<close>

fun tcp_call :: "sysc \<Rightarrow> bool" where
  "tcp_call (Getaddrinfo _ _) \<longleftrightarrow> True"
| "tcp_call (Getnameinfo _) \<longleftrightarrow> True"
| "tcp_call (Socket _ _ _) \<longleftrightarrow> True"
| "tcp_call (Inet_pton _) \<longleftrightarrow> True"
| "tcp_call (Setsockopt_reuseaddr fd) \<longleftrightarrow> fd \<noteq> CLOSED"
| "tcp_call (Bind fd _ _) \<longleftrightarrow> fd \<noteq> CLOSED"
| "tcp_call (Fcntl_getfl fd) \<longleftrightarrow> fd \<noteq> CLOSED"
| "tcp_call (Fcntl_setfl fd _) \<longleftrightarrow> fd \<noteq> CLOSED"
| "tcp_call (Connect fd _) \<longleftrightarrow> fd \<noteq> CLOSED"
| "tcp_call (Select_write fd _) \<longleftrightarrow> fd \<noteq> CLOSED"
| "tcp_call (Getsockopt_error fd) \<longleftrightarrow> fd \<noteq> CLOSED"
| "tcp_call (Close fd) \<longleftrightarrow> fd \<noteq> CLOSED"
| "tcp_call _ \<longleftrightarrow> False"

lemma tcp_call_real_fd: "tcp_call c \<Longrightarrow> real_fd c"
  by (cases c) auto

lemma setNonBlock_tcp_call:
  "setNonBlock e fd tr = (n, tr') \<Longrightarrow> fd \<noteq> CLOSED \<Longrightarrow> emits tcp_call tr tr'"
  by (auto dest!: setNonBlock_run)

lemma await_connect_tcp_call:
  "await_connect e fd tr = (r, tr') \<Longrightarrow> fd \<noteq> CLOSED \<Longrightarrow> emits tcp_call tr tr'"
  by (auto simp: await_connect_def Let_def split: prod.splits if_splits dest!: sysD)

lemma bind_local_tcp_call:
  "bind_local e io fd tr = (r, tr') \<Longrightarrow> fd \<noteq> CLOSED \<Longrightarrow> emits tcp_call tr tr'"
  by (auto simp: bind_local_def Let_def split: prod.splits if_splits dest!: sysD)

lemma start_connect_tcp_call:
  "start_connect e ai fd tr = (r, tr') \<Longrightarrow> fd \<noteq> CLOSED \<Longrightarrow> emits tcp_call tr tr'"
  by (auto simp: start_connect_def split: prod.splits if_splits
      dest!: sysD setNonBlock_tcp_call await_connect_tcp_call intro!: emits.add)
    (auto simp: extends_def)

lemma use_socket_tcp_call:
  "use_socket e io ai fd tr = (r, tr') \<Longrightarrow> fd \<noteq> CLOSED \<Longrightarrow> emits tcp_call tr tr'"
  by (auto simp: use_socket_def split: prod.splits if_splits
      dest!: sysD bind_local_tcp_call start_connect_tcp_call intro!: emits.add)
    (auto simp: extends_def)

lemma try_address_tcp_call:
  "try_address e io ai tr = (r, tr') \<Longrightarrow> emits tcp_call tr tr'"
  by (auto simp: try_address_def split: prod.splits if_splits dest!: sysD use_socket_tcp_call)
    (auto simp: extends_def)

lemma try_addresses_tcp_call:
  "try_addresses e io ais fd tr = (fd', tr') \<Longrightarrow> emits tcp_call tr tr'"
proof (induction ais arbitrary: fd tr)
  case (Cons ai ais)
  then show ?case
    by (auto split: prod.splits attempt.splits dest!: try_address_tcp_call intro: emits.trans)
qed simp

lemma connectTCP_tcp_call: "connectTCP e io tr = (fd, tr') \<Longrightarrow> emits tcp_call tr tr'"
  by (auto simp: connectTCP_def split: prod.splits dest!: sysD try_addresses_tcp_call)
    (auto simp: extends_def)

lemma connectTCP_real_fd: "connectTCP e io tr = (fd, tr') \<Longrightarrow> emits real_fd tr tr'"
  by (erule emits_mono[OF connectTCP_tcp_call]) (rule tcp_call_real_fd)

lemma tls_call_real_fd: "tls_call c \<Longrightarrow> real_fd c"
  by (cases c) auto

lemmas handle_io_failure_real_fd = emits_mono[OF handle_io_failure_tls_call tls_call_real_fd]

text \<open>
  A handshake calls OpenSSL only. Any class of calls that holds the OpenSSL calls of the
  handshake holds all it does.
\<close>

locale handshake_calls =
  fixes P :: "sysc \<Rightarrow> bool" and fd :: int
  assumes set_fd: "P (SSL_set_fd s fd)"
    and connect: "P (SSL_connect s)"
    and clear: "emits P tr (snd (keep_clear e t tr))"
    and failure: "handle_io_failure e t res tr = (f, tr') \<Longrightarrow> emits P tr tr'"
begin

lemma tls_connect_emits:
  assumes "tls_connect e fd t tr = (ok, t', tr')"
  shows "emits P tr tr'"
proof -
  obtain a tr1 where a: "sys e (SSL_set_fd (ssl t) fd) tr = (a, tr1)" by fastforce
  obtain t2 tr2 where t2: "(if ret a = 0 then keep_clear e t tr1 else (t, tr1)) = (t2, tr2)"
    by fastforce
  obtain c tr3 where c: "sys e (SSL_connect (ssl t2)) tr2 = (c, tr3)" by fastforce
  obtain f tr4 where f: "handle_io_failure e t2 (ret c) tr3 = (f, tr4)" by fastforce
  have 1: "emits P tr tr1" using sysD[OF a] by (simp add: set_fd)
  have 2: "emits P tr tr2"
    using 1 t2 clear[of tr1 e t] by (auto split: if_splits intro: emits.trans)
  have 3: "emits P tr tr3" using 2 sysD[OF c] by (auto simp: connect intro: emits.add)
  have 4: "emits P tr tr4" using 3 failure[OF f] by (rule emits.trans)
  have 5: "emits P tr (snd (keep_clear e t2 tr4))" using 4 clear by (rule emits.trans)
  from 3 4 5 show ?thesis using assms a t2 c f
    by (auto simp: tls_connect_def split: if_splits prod.splits)
qed

end

interpretation handshake_neutral: handshake_calls neutral fd for fd
  by unfold_locales (auto intro: keep_clear_neutral handle_io_failure_neutral)

lemmas tls_connect_neutral = handshake_neutral.tls_connect_emits

text \<open>
  Connecting does what \<^verbatim>\<open>connectTCP\<close>, the handshake and the manager do: a class of calls
  that holds those holds all of it.
\<close>

lemma IO_connect_emits:
  assumes c: "IO_connect e mgr io tr = (ok, io', tr')"
    and tcp: "\<And>c. tcp_call c \<Longrightarrow> P c" and tls: "\<And>c. tls_call c \<Longrightarrow> P c"
    and set_fd: "\<And>s fd. fd \<noteq> CLOSED \<Longrightarrow> P (SSL_set_fd s fd)"
    and mgr: "\<And>fd p tr. fd \<noteq> CLOSED \<Longrightarrow> emits P tr (snd (mgr fd p tr))"
  shows "emits P tr tr'"
proof -
  obtain fd tr1 where f: "connectTCP e io tr = (fd, tr1)" by fastforce
  let ?io1 = "io\<lparr>peer_fd := fd\<rparr>"
  obtain b t tr2 where t: "(if ssl (tls ?io1) = 0 then (True, tls ?io1, tr1)
      else tls_connect e (peer_fd ?io1) (tls ?io1) tr1) = (b, t, tr2)" by (metis prod_cases3)
  have 1: "emits P tr tr1" using connectTCP_tcp_call[OF f] tcp by (rule emits_mono)
  show ?thesis
  proof (cases "fd = CLOSED")
    case True
    with c f 1 show ?thesis by (auto simp: IO_connect_def)
  next
    case False
    have "handshake_calls P fd"
      by unfold_locales (auto simp: set_fd[OF False] intro: tls
          emits_mono[OF keep_clear_tls_call tls] emits_mono[OF handle_io_failure_tls_call tls])
    with t have "emits P tr1 tr2" by (auto split: if_splits dest: handshake_calls.tls_connect_emits)
    with 1 have 2: "emits P tr tr2" by (rule emits.trans)
    have "emits P tr2 (notifyManager mgr (?io1\<lparr>tls := t\<rparr>) tr2)"
      using False by (simp add: notifyManager_def mgr)
    with 2 have "emits P tr (notifyManager mgr (?io1\<lparr>tls := t\<rparr>) tr2)" by (rule emits.trans)
    with 2 c f t False show ?thesis by (auto simp: IO_connect_def Let_def split: if_splits)
  qed
qed

text \<open>
  What a peer relies on when it calls its manager: the call only starts to watch the descriptor
  it is given.
\<close>

locale notification_manager =
  fixes mgr :: manager
  assumes mgr_watches: "emits (\<lambda>c. \<exists>ep. c = Epoll_ctl_add ep fd p) tr (snd (mgr fd p tr))"
begin

lemma mgr_neutral: "emits neutral tr (snd (mgr fd p tr))"
  using mgr_watches by (rule extends_mono) (auto simp: list_all_iff)

lemma IO_connect_run:
  assumes "IO_connect e mgr io tr = (ok, io', tr')"
  obtains tr1 where "connectTCP e io tr = (peer_fd io', tr1)" and "emits neutral tr1 tr'"
proof -
  obtain fd tr1 where c: "connectTCP e io tr = (fd, tr1)" by fastforce
  let ?io1 = "io\<lparr>peer_fd := fd\<rparr>"
  obtain b t tr2 where t: "(if ssl (tls ?io1) = 0 then (True, tls ?io1, tr1)
      else tls_connect e (peer_fd ?io1) (tls ?io1) tr1) = (b, t, tr2)" by (metis prod_cases3)
  then have n: "emits neutral tr1 tr2" by (auto split: if_splits dest: tls_connect_neutral)
  have m: "emits neutral tr2 (notifyManager mgr i tr2)" for i
    by (simp add: notifyManager_def mgr_neutral)
  have "peer_fd io' = fd \<and> emits neutral tr1 tr'"
    using assms c t n m by (auto simp: IO_connect_def Let_def split: if_splits intro: emits.trans)
  with c show thesis by (auto intro: that)
qed

lemma IO_connect_no_leak:
  assumes "setfl_works e" and c: "IO_connect e mgr io tr = (ok, io', tr')"
  shows "extends (leaves os os) tr tr' \<or>
    peer_fd io' \<noteq> CLOSED \<and> extends (leaves os (peer_fd io' # os)) tr tr'"
proof -
  obtain tr1 where r: "connectTCP e io tr = (peer_fd io', tr1)" and "emits neutral tr1 tr'"
    using IO_connect_run[OF c] .
  then have "extends (leaves os' os') tr1 tr'" for os'
    by (auto elim: extends_mono intro: neutral_leaves)
  with connectTCP_leaves[OF assms(1) r] show ?thesis by (blast intro: leaves_trans)
qed

lemma IO_connect_nonblocking:
  assumes c: "IO_connect e mgr io tr = (ok, io', tr')"
  shows "extends (nonblocking_from None) tr tr'"
proof -
  obtain tr1 where r: "connectTCP e io tr = (peer_fd io', tr1)" and "emits neutral tr1 tr'"
    using IO_connect_run[OF c] .
  then have "extends (nonblocking_from None) tr1 tr'"
    by (auto elim: extends_mono intro: neutral_nonblocking)
  with connectTCP_nonblocking[of tr e io] r show ?thesis by (auto intro: nonblocking.trans)
qed

end

text \<open>Connecting changes the descriptor and possibly the TLS object, nothing else.\<close>

lemma IO_connect_frame:
  "IO_connect e mgr io tr = (ok, io', tr') \<Longrightarrow>
    io' = io\<lparr>peer_fd := peer_fd io', tls := tls io'\<rparr>"
  by (auto simp: IO_connect_def Let_def split: prod.splits if_splits)

lemma IO_close_eq:
  "IO_close e io tr = (False, io\<lparr>peer_fd := CLOSED\<rparr>, tr @ [(Close (peer_fd io), e tr (Close (peer_fd io)))])"
  by (simp add: IO_close_def)

end
