(* ===== verification/Peer_Thread.thy ===== *)
theory Peer_Thread
  imports Peer_Connect
begin

text \<open>
  A peer's own thread: \<^verbatim>\<open>IO::threadFunc\<close>, \<^verbatim>\<open>IO::read\<close> and \<^verbatim>\<open>IO::write\<close>. The
  thread never returns, so it is a step function on the peer and the trace: taking the next
  query, one round of the connecting loop, one round of the reading loop. Other threads act on
  the peer between two steps.
\<close>

section \<open>The code\<close>

definition MAX_READ :: nat where
  "MAX_READ = 2048"

text \<open>
  The plain branch follows the source: a failed \<^verbatim>\<open>read\<close> with \<^verbatim>\<open>EAGAIN\<close> becomes 0, any
  other failure stays -1.
\<close>

definition IO_read :: "env \<Rightarrow> IO \<Rightarrow> trace \<Rightarrow> int \<times> trace" where
  "IO_read e io tr =
     (if ssl (tls io) \<noteq> 0
      then (let (a, tr1) = sys e (SSL_read (ssl (tls io)) MAX_READ) tr
            in if ret a \<le> 0
               then (let (f, tr2) = handle_io_failure e (tls io) (ret a) tr1
                     in (if f = -1 then 0 else ret a, tr2))
               else (ret a, tr1))
      else (let (a, tr1) = sys e (Read (peer_fd io) MAX_READ) tr
            in if ret a = -1 then (if errno a = EAGAIN then 0 else ret a, tr1)
               else (ret a, tr1)))"

definition IO_write :: "env \<Rightarrow> IO \<Rightarrow> string \<Rightarrow> trace \<Rightarrow> int \<times> trace" where
  "IO_write e io buffer tr =
     (let (a, tr1) = sys e (if ssl (tls io) \<noteq> 0 then SSL_write (ssl (tls io)) buffer
                            else Write (peer_fd io) buffer) tr
      in (ret a, tr1))"

text \<open>\<^verbatim>\<open>_que.pop()\<close> and what the thread does with the query; \<open>None\<close> while the queue is empty.\<close>

definition serve :: "env \<Rightarrow> IO \<Rightarrow> trace \<Rightarrow> (IO \<times> trace) option" where
  "serve e io tr =
     (case pop (peer_que io) of
        None \<Rightarrow> None
      | Some ((r, message), q) \<Rightarrow>
          let io1 = io\<lparr>peer_que := q\<rparr>
          in if peer_fd io1 = CLOSED \<and> r \<noteq> CONNECT then Some (io1, tr)
             else Some (case r of
                 CONNECT \<Rightarrow> (io1\<lparr>servant := Connecting\<rparr>, tr)
               | READ \<Rightarrow> (io1\<lparr>servant := Reading False\<rparr>, tr)
               | WRITE \<Rightarrow> (io1, snd (IO_write e io1 message tr))
               | CLOSE \<Rightarrow> snd (IO_close e io1 tr)))"

text \<open>One test of \<^verbatim>\<open>while (_fd==CLOSED)\<close>, with the attempt and the five seconds of sleep.\<close>

definition connecting_round :: "env \<Rightarrow> manager \<Rightarrow> IO \<Rightarrow> trace \<Rightarrow> IO \<times> trace" where
  "connecting_round e mgr io tr =
     (if peer_fd io = CLOSED
      then (let (_, io1, tr1) = IO_connect e mgr io tr; (_, tr2) = sys e (Sleep 5) tr1
            in (io1, tr2))
      else (io\<lparr>servant := Waiting\<rparr>, tr))"

text \<open>
  One round of \<^verbatim>\<open>while (1)\<close> in the \<^verbatim>\<open>req::READ\<close> branch. Only -1 leaves the loop; 0
  empties the queue and makes the request a close, which is carried out after the loop. The counter
  \<^verbatim>\<open>all_reads\<close>, which nothing reads, is in Read_Total.
\<close>

definition reading_round :: "env \<Rightarrow> bool \<Rightarrow> IO \<Rightarrow> trace \<Rightarrow> IO \<times> trace" where
  "reading_round e closing io tr =
     (let (res, tr1) = IO_read e io tr
      in if res = -1
         then (let io1 = io\<lparr>servant := Waiting\<rparr>
               in if closing then snd (IO_close e io1 tr1) else (io1, tr1))
         else if res = 0
         then (io\<lparr>peer_que := clear (peer_que io), servant := Reading True\<rparr>, tr1)
         else (io, tr1))"

definition threadFunc :: "env \<Rightarrow> manager \<Rightarrow> IO \<Rightarrow> trace \<Rightarrow> (IO \<times> trace) option" where
  "threadFunc e mgr io tr =
     (case servant io of
        Waiting \<Rightarrow> serve e io tr
      | Connecting \<Rightarrow> Some (connecting_round e mgr io tr)
      | Reading closing \<Rightarrow> Some (reading_round e closing io tr))"

text \<open>
  The peer while time passes: its thread makes a step, or its manager delivers a request.
\<close>

inductive peer_step :: "env \<Rightarrow> manager \<Rightarrow> IO \<times> trace \<Rightarrow> IO \<times> trace \<Rightarrow> bool" for e mgr where
  thread: "threadFunc e mgr io tr = Some (io', tr') \<Longrightarrow> peer_step e mgr (io, tr) (io', tr')"
| deliver: "request ip port fd r msg io = (True, io') \<Longrightarrow> peer_step e mgr (io, tr) (io', tr)"
| elsewhere: "peer_step e mgr (io, tr) (io, tr @ ts)"

inductive_simps peer_step_iff: "peer_step e mgr (io, tr) (io', tr')"

section \<open>Reading\<close>

text \<open>The plain branch: what the caller sees, from what the system call returned.\<close>

lemma IO_read_plain:
  "ssl (tls io) = 0 \<Longrightarrow> fst (IO_read e io tr) =
    (let a = e tr (Read (peer_fd io) MAX_READ)
     in if ret a = -1 \<and> errno a = EAGAIN then 0 else ret a)"
  by (simp add: IO_read_def sys_eq Let_def)

lemma request_frame:
  "request ip port fd r msg io = (True, io') \<Longrightarrow>
    peer_fd io' = peer_fd io \<and> tls io' = tls io \<and> servant io' = servant io \<and>
    locIp io' = locIp io \<and> locPort io' = locPort io"
  by (auto simp: request_def assign_master_def Let_def split: if_splits)

text \<open>
  A plain connection whose reads only ever deliver data, an end of file or \<^verbatim>\<open>EAGAIN\<close>: all that
  a non-blocking descriptor answers while nothing is wrong with it.
\<close>

definition no_hard_error :: "env \<Rightarrow> bool" where
  "no_hard_error e \<longleftrightarrow>
     (\<forall>tr fd n. ret (e tr (Read fd n)) = -1 \<longrightarrow> errno (e tr (Read fd n)) = EAGAIN)"

definition reading_plain :: "int \<Rightarrow> IO \<times> trace \<Rightarrow> bool" where
  "reading_plain fd s \<longleftrightarrow> (\<exists>closing. servant (fst s) = Reading closing) \<and>
     ssl (tls (fst s)) = 0 \<and> peer_fd (fst s) = fd"

lemma reading_round_stays:
  assumes "no_hard_error e" and "ssl (tls io) = 0" and "servant io = Reading c"
  shows "\<exists>c'. servant (fst (reading_round e closing io tr)) = Reading c'"
    and "tls (fst (reading_round e closing io tr)) = tls io"
    and "peer_fd (fst (reading_round e closing io tr)) = peer_fd io"
proof -
  have "fst (IO_read e io tr) \<noteq> -1"
    using assms(1,2) by (auto simp: IO_read_plain no_hard_error_def Let_def)
  then show "\<exists>c'. servant (fst (reading_round e closing io tr)) = Reading c'"
    and "tls (fst (reading_round e closing io tr)) = tls io"
    and "peer_fd (fst (reading_round e closing io tr)) = peer_fd io"
    using assms(3) by (auto simp: reading_round_def Let_def split: prod.splits)
qed

lemma reading_plain_step:
  assumes "no_hard_error e" and "reading_plain fd (io, tr)" and "peer_step e mgr (io, tr) (io', tr')"
  shows "reading_plain fd (io', tr')"
proof -
  from assms(2) obtain c where c: "servant io = Reading c" "ssl (tls io) = 0" "peer_fd io = fd"
    by (auto simp: reading_plain_def)
  have "reading_plain fd (reading_round e c io tr)"
    using reading_round_stays[OF assms(1) c(2,1), of c tr] c by (simp add: reading_plain_def)
  with assms(3) c show ?thesis
    by (auto simp: peer_step_iff threadFunc_def reading_plain_def dest: request_frame)
qed

text \<open>C30: on a plain connection a read request never comes to an end: as long as the descriptor
  answers with data, end of file or EAGAIN, the peer's thread stays in the reading loop
  whatever requests are delivered meanwhile, and the descriptor is not closed, not even after
  the end of file.\<close>

theorem plain_read_never_returns:
  assumes "no_hard_error e" and "ssl (tls io) = 0" and "servant io = Reading c"
    and "(peer_step e mgr)\<^sup>*\<^sup>* (io, tr) (io', tr')"
  shows "(\<exists>c'. servant io' = Reading c') \<and> peer_fd io' = peer_fd io"
proof -
  have "reading_plain (peer_fd io) (io', tr')"
    using assms(4)
  proof (induction rule: rtranclp_induct)
    case base
    then show ?case using assms(2,3) by (simp add: reading_plain_def)
  next
    case (step s s')
    then show ?case by (cases s; cases s') (auto intro: reading_plain_step[OF assms(1)])
  qed
  then show ?thesis by (auto simp: reading_plain_def)
qed

definition quiet_env :: env where
  "quiet_env tr c = (case c of Read _ _ \<Rightarrow> (answer (-1))\<lparr>errno := EAGAIN\<rparr> | _ \<Rightarrow> answer 0)"

definition demo_manager :: manager where
  "demo_manager fd p tr = (True, tr)"

definition demo_reader :: IO where
  "demo_reader = demo_peer\<lparr>peer_fd := 5, servant := Reading False\<rparr>"

lemmas demo_reader_simps = demo_reader_def demo_peer_def fresh

text \<open>One round at a drained socket: the answer is EAGAIN and the thread starts over.\<close>

lemma quiet_round:
  "peer_step quiet_env demo_manager (demo_reader, [])
     (demo_reader\<lparr>servant := Reading True\<rparr>, [(Read 5 2048, (answer (-1))\<lparr>errno := EAGAIN\<rparr>)])"
proof -
  have "threadFunc quiet_env demo_manager demo_reader [] =
     Some (demo_reader\<lparr>servant := Reading True\<rparr>, [(Read 5 2048, (answer (-1))\<lparr>errno := EAGAIN\<rparr>)])"
    by (simp add: threadFunc_def reading_round_def IO_read_def sys_eq quiet_env_def MAX_READ_def
        demo_reader_simps clear_def)
  then show ?thesis by (rule peer_step.thread)
qed

theorem plain_read_never_returns_witness:
  "no_hard_error quiet_env \<and> servant demo_reader = Reading False \<and>
   (\<exists>io' tr'. tr' \<noteq> [] \<and> (peer_step quiet_env demo_manager)\<^sup>*\<^sup>* (demo_reader, []) (io', tr') \<and>
     (\<exists>c'. servant io' = Reading c') \<and> peer_fd io' = 5)"
proof -
  have h: "no_hard_error quiet_env" "ssl (tls demo_reader) = 0" "servant demo_reader = Reading False"
    by (simp_all add: no_hard_error_def quiet_env_def demo_reader_simps)
  have s: "(peer_step quiet_env demo_manager)\<^sup>*\<^sup>* (demo_reader, [])
     (demo_reader\<lparr>servant := Reading True\<rparr>, [(Read 5 2048, (answer (-1))\<lparr>errno := EAGAIN\<rparr>)])"
    by (rule r_into_rtranclp) (rule quiet_round)
  from plain_read_never_returns[OF h s] h s show ?thesis
    by (intro conjI exI[of _ "demo_reader\<lparr>servant := Reading True\<rparr>"]
        exI[of _ "[(Read 5 2048, (answer (-1))\<lparr>errno := EAGAIN\<rparr>)]"])
      (auto simp: demo_reader_simps)
qed

text \<open>The reading loop is left exactly when read reports -1, and then the descriptor is closed
  exactly when an earlier round of the same loop reported 0: the close that the end of file asks
  for happens, but only after a further read has failed.\<close>

theorem read_loop_exit:
  assumes "servant io = Reading closing" and "threadFunc e mgr io tr = Some (io', tr')"
  shows "(servant io' = Waiting \<longleftrightarrow> fst (IO_read e io tr) = -1) \<and>
    (servant io' = Waiting \<longrightarrow> peer_fd io' = (if closing then CLOSED else peer_fd io)) \<and>
    (servant io' \<noteq> Waiting \<longrightarrow>
       servant io' = Reading (closing \<or> fst (IO_read e io tr) = 0) \<and> peer_fd io' = peer_fd io)"
  using assms
  by (auto simp: threadFunc_def reading_round_def IO_close_eq split: prod.splits if_splits)

definition reset_env :: env where
  "reset_env tr c = (case c of Read _ _ \<Rightarrow> (answer (-1))\<lparr>errno := 104\<rparr> | _ \<Rightarrow> answer 0)"

theorem read_loop_exit_witness:
  "\<exists>io' tr'. threadFunc reset_env demo_manager (demo_reader\<lparr>servant := Reading True\<rparr>) [] = Some (io', tr') \<and>
     fst (IO_read reset_env (demo_reader\<lparr>servant := Reading True\<rparr>) []) = -1 \<and>
     servant io' = Waiting \<and> peer_fd io' = CLOSED"
proof -
  let ?io = "demo_reader\<lparr>servant := Reading True\<rparr>"
  obtain io' tr' where t: "threadFunc reset_env demo_manager ?io [] = Some (io', tr')"
    by (simp add: threadFunc_def) fastforce
  have "fst (IO_read reset_env ?io []) = -1"
    by (simp add: IO_read_plain reset_env_def demo_reader_simps Let_def)
  with read_loop_exit[OF _ t, of True] t show ?thesis by simp
qed

text \<open>Over TLS the reading loop tells the three cases apart as intended: data is its length, a
  call to be repeated later or an end of file is passed on as SSL_read returned it, and every
  other failure becomes 0, which makes the thread close the connection.\<close>

lemma tls_read_result:
  assumes "ssl (tls io) \<noteq> 0" and "e tr (SSL_read (ssl (tls io)) MAX_READ) = a"
    and "e (tr @ [(SSL_read (ssl (tls io)) MAX_READ, a)]) (SSL_get_error (ssl (tls io)) (ret a)) = b"
  shows "fst (IO_read e io tr) =
    (if 0 < ret a then ret a
     else if ret b \<in> {SSL_ERROR_WANT_READ, SSL_ERROR_WANT_WRITE, SSL_ERROR_ZERO_RETURN} then ret a
     else 0)"
  using assms by (auto simp: IO_read_def sys_eq handle_io_failure_def Let_def)

text \<open>
  A TLS connection that is over, because the server ended it or because it broke: every read
  fails, and not because it should be repeated. OpenSSL reports the orderly end with the result 0.
\<close>

definition tls_over :: "env \<Rightarrow> bool" where
  "tls_over e \<longleftrightarrow> (\<forall>tr s n. ret (e tr (SSL_read s n)) \<le> 0) \<and>
     (\<forall>tr s r. ret (e tr (SSL_get_error s r)) \<notin> {SSL_ERROR_WANT_READ, SSL_ERROR_WANT_WRITE}) \<and>
     (\<forall>tr s r. ret (e tr (SSL_get_error s r)) = SSL_ERROR_ZERO_RETURN \<longrightarrow> r = 0)"

definition reading_tls :: "int \<Rightarrow> int \<Rightarrow> IO \<times> trace \<Rightarrow> bool" where
  "reading_tls s fd x \<longleftrightarrow> (\<exists>closing. servant (fst x) = Reading closing) \<and>
     ssl (tls (fst x)) = s \<and> peer_fd (fst x) = fd"

lemma tls_over_read:
  assumes "tls_over e" and "ssl (tls io) \<noteq> 0"
  shows "fst (IO_read e io tr) = 0"
proof -
  let ?a = "e tr (SSL_read (ssl (tls io)) MAX_READ)"
  let ?b = "e (tr @ [(SSL_read (ssl (tls io)) MAX_READ, ?a)]) (SSL_get_error (ssl (tls io)) (ret ?a))"
  have "\<not> 0 < ret ?a" using assms(1) by (simp add: tls_over_def not_less)
  moreover have "ret ?b \<notin> {SSL_ERROR_WANT_READ, SSL_ERROR_WANT_WRITE}"
    "ret ?b = SSL_ERROR_ZERO_RETURN \<Longrightarrow> ret ?a = 0"
    using assms(1) unfolding tls_over_def by blast+
  ultimately show ?thesis by (simp add: tls_read_result[OF assms(2) refl refl])
qed

lemma reading_tls_step:
  assumes "tls_over e" and "s \<noteq> 0" and "reading_tls s fd (io, tr)" and "peer_step e mgr (io, tr) (io', tr')"
  shows "reading_tls s fd (io', tr')"
proof -
  from assms(3) obtain c where c: "servant io = Reading c" "ssl (tls io) = s" "peer_fd io = fd"
    by (auto simp: reading_tls_def)
  with tls_over_read[OF assms(1), of io tr] assms(2) have "reading_tls s fd (reading_round e c io tr)"
    by (auto simp: reading_round_def reading_tls_def split: prod.splits)
  with assms(4) c show ?thesis
    by (auto simp: peer_step_iff threadFunc_def reading_tls_def dest: request_frame)
qed

text \<open>A TLS connection that is over is never closed: once the server has ended it or it has
  broken, the peer's thread repeats the failing read for ever; the close that each failure asks
  for is never carried out, and no request delivered meanwhile, not even a close, is served.\<close>

theorem tls_end_never_closes:
  assumes "tls_over e" and "ssl (tls io) \<noteq> 0" and "servant io = Reading c"
    and "(peer_step e mgr)\<^sup>*\<^sup>* (io, tr) (io', tr')"
  shows "(\<exists>c'. servant io' = Reading c') \<and> peer_fd io' = peer_fd io"
proof -
  have "reading_tls (ssl (tls io)) (peer_fd io) (io', tr')"
    using assms(4)
  proof (induction rule: rtranclp_induct)
    case base
    then show ?case using assms(3) by (simp add: reading_tls_def)
  next
    case (step x y)
    then show ?case by (cases x; cases y) (auto intro: reading_tls_step[OF assms(1,2)])
  qed
  then show ?thesis by (auto simp: reading_tls_def)
qed

definition tls_over_env :: env where
  "tls_over_env tr c =
     (case c of
        SSL_read _ _ \<Rightarrow> answer (-1)
      | SSL_get_error _ _ \<Rightarrow> answer SSL_ERROR_SYSCALL
      | _ \<Rightarrow> answer 0)"

theorem tls_end_never_closes_witness:
  "\<exists>io' tr'. tr' \<noteq> [] \<and>
    (peer_step tls_over_env demo_manager)\<^sup>*\<^sup>* (demo_reader\<lparr>tls := \<lparr>ssl_ctx = 1, ssl = 2\<rparr>\<rparr>, []) (io', tr') \<and>
    (\<exists>c'. servant io' = Reading c') \<and> peer_fd io' = 5"
proof -
  let ?io = "demo_reader\<lparr>tls := \<lparr>ssl_ctx = 1, ssl = 2\<rparr>\<rparr>"
  have h: "tls_over tls_over_env" "ssl (tls ?io) \<noteq> 0" "servant ?io = Reading False"
    by (simp_all add: tls_over_def tls_over_env_def demo_reader_simps)
  obtain io' tr' where t: "threadFunc tls_over_env demo_manager ?io [] = Some (io', tr')" "tr' \<noteq> []"
    by (simp add: threadFunc_def reading_round_def IO_read_def sys_eq handle_io_failure_def
        tls_over_env_def demo_reader_simps Let_def)
  have s: "(peer_step tls_over_env demo_manager)\<^sup>*\<^sup>* (?io, []) (io', tr')"
    by (rule r_into_rtranclp) (rule peer_step.thread[OF t(1)])
  from tls_end_never_closes[OF h s] s t(2) show ?thesis by (auto simp: demo_reader_def)
qed

section \<open>Connecting\<close>

definition connecting_rounds :: "env \<Rightarrow> manager \<Rightarrow> nat \<Rightarrow> IO \<times> trace \<Rightarrow> IO \<times> trace" where
  "connecting_rounds e mgr n = (\<lambda>(io, tr). connecting_round e mgr io tr) ^^ n"

lemma connecting_rounds_Suc:
  "connecting_rounds e mgr (Suc n) s =
    (case connecting_rounds e mgr n s of (io, tr) \<Rightarrow> connecting_round e mgr io tr)"
  by (simp add: connecting_rounds_def)

lemma connecting_round_failed:
  "peer_fd io = CLOSED \<Longrightarrow> servant (fst (connecting_round e mgr io tr)) = servant io"
  by (auto simp: connecting_round_def split: prod.splits dest!: IO_connect_frame)
    (metis IO.select_convs(5) IO.surjective IO.update_convs(3) IPeer.update_convs(3))

lemma connecting_while_closed:
  assumes "servant io = Connecting"
    and "\<forall>m < n. peer_fd (fst (connecting_rounds e mgr m (io, tr))) = CLOSED"
  shows "servant (fst (connecting_rounds e mgr n (io, tr))) = Connecting"
  using assms(2)
proof (induction n)
  case 0
  then show ?case using assms(1) by (simp add: connecting_rounds_def)
next
  case (Suc n)
  obtain io1 tr1 where r: "connecting_rounds e mgr n (io, tr) = (io1, tr1)" by fastforce
  from Suc r have "servant io1 = Connecting" "peer_fd io1 = CLOSED"
    by (auto simp: less_Suc_eq)
  then show ?case using r by (simp add: connecting_rounds_Suc connecting_round_failed)
qed

text \<open>The connecting loop ends exactly when some attempt yields a descriptor, and as soon as
  one does; until then the peer's thread stays in the loop and serves no other request.\<close>

theorem connecting_ends_iff:
  assumes "servant io = Connecting"
  shows "(\<exists>n. servant (fst (connecting_rounds e mgr n (io, tr))) = Waiting) \<longleftrightarrow>
    (\<exists>n. peer_fd (fst (connecting_rounds e mgr n (io, tr))) \<noteq> CLOSED)"
proof
  assume "\<exists>n. servant (fst (connecting_rounds e mgr n (io, tr))) = Waiting"
  then show "\<exists>n. peer_fd (fst (connecting_rounds e mgr n (io, tr))) \<noteq> CLOSED"
    using connecting_while_closed[OF assms, of _ e mgr tr] by (metis servant.distinct(1))
next
  assume "\<exists>n. peer_fd (fst (connecting_rounds e mgr n (io, tr))) \<noteq> CLOSED"
  then obtain n where n: "peer_fd (fst (connecting_rounds e mgr n (io, tr))) \<noteq> CLOSED" by blast
  obtain io1 tr1 where r: "connecting_rounds e mgr n (io, tr) = (io1, tr1)" by fastforce
  with n have "servant (fst (connecting_rounds e mgr (Suc n) (io, tr))) = Waiting"
    by (simp add: connecting_rounds_Suc connecting_round_def)
  then show "\<exists>n. servant (fst (connecting_rounds e mgr n (io, tr))) = Waiting" by blast
qed

lemma demo_connecting_round:
  "peer_fd (fst (connecting_rounds refusing_env demo_manager 1
     (demo_peer\<lparr>servant := Connecting\<rparr>, []))) \<noteq> CLOSED"
proof -
  let ?io = "demo_peer\<lparr>servant := Connecting\<rparr>"
  obtain fd tr1 where "connectTCP refusing_env ?io [] = (fd, tr1)" "fd \<noteq> CLOSED"
    using connectTCP_refused_demo by blast
  then show ?thesis
    by (simp add: connecting_rounds_def connecting_round_def IO_connect_def sys_eq
        demo_peer_def fresh Let_def)
qed

theorem connecting_ends_iff_witness:
  "servant (demo_peer\<lparr>servant := Connecting\<rparr>) = Connecting \<and>
   (\<exists>n. servant (fst (connecting_rounds refusing_env demo_manager n
     (demo_peer\<lparr>servant := Connecting\<rparr>, []))) = Waiting)"
  using connecting_ends_iff[of "demo_peer\<lparr>servant := Connecting\<rparr>" refusing_env demo_manager "[]"]
    demo_connecting_round by auto

end
