(* ===== verification/End_Point.thy ===== *)
theory End_Point
  imports Request_Line Peer_Thread
begin

text \<open>
  \<^verbatim>\<open>EndPoint.h\<close> and \<^verbatim>\<open>EndPoint.cpp\<close>: the list of peers, the choice of the peer a
  request goes to, the creation of peers, and the bodies of the end point's two threads.
\<close>

section \<open>The code\<close>

record EndPoint =
  ep_epoll :: Epoll
  peers :: "IO list"

definition appendNotificationNode :: "env \<Rightarrow> EndPoint \<Rightarrow> manager" where
  "appendNotificationNode e ep fd param tr = addNew e (ep_epoll ep) fd param tr"

text \<open>
  The constructor: the epoll object, then the first peer, which gets the end point's own address
  as local address. \<open>junk\<close> is the content of the peer's uninitialised port.
\<close>

definition EndPoint_new ::
  "env \<Rightarrow> string \<Rightarrow> 16 word \<Rightarrow> 16 word \<Rightarrow> trace \<Rightarrow> EndPoint outcome \<times> trace" where
  "EndPoint_new e ip port junk tr =
     (let (epoll, tr1) = Epoll_new e tr;
          (io, tr2) = IO_new e ip port False junk tr1
      in case io of
           Inl x \<Rightarrow> (Inl x, tr2)
         | Inr p \<Rightarrow> (Inr \<lparr>ep_epoll = epoll, peers = [p]\<rparr>, tr2))"

text \<open>The rest of \<^verbatim>\<open>interpretRequest\<close>, after the loop over the words.\<close>

definition dispatch ::
  "env \<Rightarrow> 16 word \<Rightarrow> arguments \<Rightarrow> EndPoint \<Rightarrow> trace \<Rightarrow> EndPoint outcome \<times> trace" where
  "dispatch e junk st ep tr =
     (let (res, ps) = offer (request (arg_ip st) (arg_port st) (arg_fd st) (notification st)
                               (arg_msg st)) (peers ep);
          ep1 = ep\<lparr>peers := ps\<rparr>
      in if \<not> res
         then (let (io, tr1) = IO_new e (arg_ip st) (arg_port st) False junk tr
               in case io of
                    Inl x \<Rightarrow> (Inl x, tr1)
                  | Inr p \<Rightarrow> (Inr (ep1\<lparr>peers := peers ep1 @ [p]\<rparr>), tr1))
         else (Inr ep1, tr))"

definition interpretRequest ::
  "env \<Rightarrow> 16 word \<Rightarrow> string \<Rightarrow> EndPoint \<Rightarrow> trace \<Rightarrow> EndPoint outcome \<times> trace" where
  "interpretRequest e junk arg ep tr =
     (case interpret_stream arg no_arguments of
        Inl x \<Rightarrow> (Inl x, tr)
      | Inr None \<Rightarrow> (Inr ep, tr)
      | Inr (Some st) \<Rightarrow> dispatch e junk st ep tr)"

text \<open>One pass of the timer thread over the peers, before its sleep of 100 ms.\<close>

fun timer_pass :: "IO list \<Rightarrow> unit outcome" where
  "timer_pass [] = Inr ()"
| "timer_pass (p # ps) =
     (case timerCallback p of Inl x \<Rightarrow> Inl x | Inr _ \<Rightarrow> timer_pass ps)"

section \<open>The end point as the manager of its peers\<close>

lemma appendNotificationNode_run:
  "appendNotificationNode e ep fd p tr =
    (let a = e tr (Epoll_ctl_add (epoll_fd (ep_epoll ep)) fd p)
     in (ret a \<noteq> -1, tr @ [(Epoll_ctl_add (epoll_fd (ep_epoll ep)) fd p, a)]))"
  by (simp add: appendNotificationNode_def addNew_def sys_eq Let_def)

interpretation end_point_manager: notification_manager "appendNotificationNode e ep" for e ep
  by unfold_locales (simp add: appendNotificationNode_run Let_def)

lemma IO_new_plain: "IO_new e ip port False junk tr = (Inr (IO_fields ip port junk new_TLS), tr)"
  by (simp add: IO_new_def)

lemma EndPoint_new_peers:
  "EndPoint_new e ip port junk tr =
    (Inr \<lparr>ep_epoll = fst (Epoll_new e tr), peers = [IO_fields ip port junk new_TLS]\<rparr>,
     snd (Epoll_new e tr))"
  by (simp add: EndPoint_new_def IO_new_plain split: prod.split)

section \<open>Where a request goes\<close>

abbreviation takes :: "arguments \<Rightarrow> IO \<Rightarrow> bool" where
  "takes st \<equiv> request_matches (arg_ip st) (arg_port st) (arg_fd st)"

lemma dispatch_none:
  assumes "\<forall>p \<in> set (peers ep). \<not> takes st p"
  shows "dispatch e junk st ep tr =
    (Inr (ep\<lparr>peers := peers ep @ [IO_fields (arg_ip st) (arg_port st) junk new_TLS]\<rparr>), tr)"
proof -
  have "offer (request (arg_ip st) (arg_port st) (arg_fd st) (notification st) (arg_msg st)) (peers ep)
      = (False, peers ep)"
    using assms by (intro io_peer.offer_none) simp
  then show ?thesis by (simp add: dispatch_def IO_new_plain)
qed

lemma dispatch_taken:
  assumes "peers ep = ps @ p # qs" and "\<forall>q \<in> set ps. \<not> takes st q" and "takes st p"
  shows "dispatch e junk st ep tr =
    (Inr (ep\<lparr>peers := ps @ (assign_master (arg_ip st) (arg_port st) p)
        \<lparr>peer_que := push (notification st, arg_msg st) (peer_que p)\<rparr> # qs\<rparr>), tr)"
proof -
  have "offer (request (arg_ip st) (arg_port st) (arg_fd st) (notification st) (arg_msg st)) (peers ep)
      = (True, ps @ snd (request (arg_ip st) (arg_port st) (arg_fd st) (notification st) (arg_msg st) p) # qs)"
    unfolding assms(1) using assms(2,3) by (intro io_peer.offer_first) simp_all
  then show ?thesis using assms(3) by (simp add: dispatch_def request_taken)
qed

text \<open>C23: a request reaches exactly one peer, the first in the list that has its address or its
  descriptor or is still free: that peer's queue grows by the request at its end, and every
  other peer, before it or after it, is unchanged, as is everything outside the program.\<close>

theorem request_reaches_first_match:
  assumes "interpret_stream arg no_arguments = Inr (Some st)"
    and "peers ep = ps @ p # qs" and "\<forall>q \<in> set ps. \<not> takes st q" and "takes st p"
  shows "\<exists>p'. interpretRequest e junk arg ep tr = (Inr (ep\<lparr>peers := ps @ p' # qs\<rparr>), tr) \<and>
    que (peer_que p') = que (peer_que p) @ [(notification st, arg_msg st)] \<and>
    peer_fd p' = peer_fd p \<and> servant p' = servant p \<and> tls p' = tls p \<and>
    (peer_ip p' = peer_ip p \<and> peer_port p' = peer_port p \<or>
     peer_ip p = [] \<and> peer_port p = 0 \<and> peer_ip p' = arg_ip st \<and> peer_port p' = arg_port st)"
  using assms(1) dispatch_taken[OF assms(2-4), of e junk tr]
  by (intro exI[of _ "(assign_master (arg_ip st) (arg_port st) p)
        \<lparr>peer_que := push (notification st, arg_msg st) (peer_que p)\<rparr>"])
    (simp add: interpretRequest_def assign_master_def tsq.queue_laws)

definition demo_end_point :: EndPoint where
  "demo_end_point = \<lparr>ep_epoll = \<lparr>epoll_fd = 3, waiter = True\<rparr>,
     peers = [demo_reader\<lparr>peer_fd := 4\<rparr>, demo_reader\<lparr>peer_fd := 7\<rparr>]\<rparr>"

definition demo_event :: string where
  "demo_event = event_request (7, 0x2010)"

lemma demo_event_arguments:
  "interpret_stream demo_event no_arguments =
    Inr (Some (no_arguments\<lparr>arg_fd := 7, notification := CLOSE\<rparr>))"
  by (simp add: demo_event_def event_request_read hang_up_def epoll_bits)

theorem request_reaches_first_match_witness:
  "\<exists>p'. fst (interpretRequest quiet_env 0 demo_event demo_end_point []) =
      Inr (demo_end_point\<lparr>peers := [demo_reader\<lparr>peer_fd := 4\<rparr>, p']\<rparr>) \<and>
    que (peer_que p') = [(CLOSE, [])] \<and> peer_fd p' = 7"
proof -
  let ?p = "demo_reader\<lparr>peer_fd := 7\<rparr>" and ?q = "demo_reader\<lparr>peer_fd := 4\<rparr>"
  have ps: "peers demo_end_point = [?q] @ ?p # []" by (simp add: demo_end_point_def)
  have "\<forall>q \<in> set [?q]. \<not> takes (no_arguments\<lparr>arg_fd := 7, notification := CLOSE\<rparr>) q"
    "takes (no_arguments\<lparr>arg_fd := 7, notification := CLOSE\<rparr>) ?p"
    by (simp_all add: request_matches_def no_arguments_def demo_reader_simps)
  from request_reaches_first_match[OF demo_event_arguments ps this, of quiet_env 0 "[]"]
  show ?thesis
    by (elim exE conjE) (auto simp: no_arguments_def demo_reader_simps)
qed

text \<open>C29: these lines end the program, and no others: the words up to some point are understood on
  their own, and then comes \<^verbatim>\<open>-i\<close> or \<^verbatim>\<open>-f\<close> as the last word, which raises an exception nobody
  catches, or \<^verbatim>\<open>-i\<close> with an address that overruns the array of octets. On every other line, however
  wrong, interpretRequest returns; in no case it calls anything outside the program before it stops.\<close>

theorem lines_that_end_the_program:
  "interpretRequest e junk arg ep tr = (Inl x, tr') \<longleftrightarrow> tr' = tr \<and>
    (\<exists>pre st post. words arg = pre @ post \<and> interpret_stream (unwords pre) no_arguments = Inr (Some st) \<and>
      (post = [''-i''] \<and> x = Uncaught ''missing ip in arguments'' \<or>
       post = [''-f''] \<and> x = Uncaught ''missing file descriptor number'' \<or>
       (\<exists>a us. post = ''-i'' # a # us \<and> validateAddrTCP a = Inl x)))"
proof -
  have "interpret_stream (unwords pre) no_arguments = interpret_words pre no_arguments"
    if "words arg = pre @ post" for pre post
    unfolding interpret_stream_line using that words_are_words[of _ arg] by (subst words_unwords) auto
  moreover have "interpretRequest e junk arg ep tr = (Inl x, tr') \<longleftrightarrow>
      tr' = tr \<and> interpret_words (words arg) no_arguments = Inl x"
    by (auto simp: interpretRequest_def interpret_stream_line dispatch_def IO_new_plain Let_def
        split: sum.splits option.splits prod.splits if_splits)
  ultimately show ?thesis unfolding interpret_words_stop_iff stops_at_def by fastforce
qed

text \<open>C38: a request that no peer takes is lost: the end point adds an idle peer with an empty queue
  and without a remote address, whose local address is the address the request was meant for;
  kind and message of the request are stored nowhere and nothing is sent.\<close>

theorem unmatched_request_is_lost:
  assumes "interpret_stream arg no_arguments = Inr (Some st)"
    and "\<forall>p \<in> set (peers ep). \<not> takes st p"
  shows "interpretRequest e junk arg ep tr =
    (Inr (ep\<lparr>peers := peers ep @ [\<lparr>peer_ip = [], peer_port = junk, peer_fd = CLOSED,
        locIp = arg_ip st, locPort = arg_port st, tls = new_TLS, peer_que = new_queue,
        servant = Waiting\<rparr>]\<rparr>), tr)"
  using assms by (simp add: interpretRequest_def dispatch_none IO_fields_def)

definition demo_connect_line :: string where
  "demo_connect_line = unwords [''-i'', ''10.0.0.1:80'', ''-m'', ''hi'']"

definition demo_arguments :: arguments where
  "demo_arguments = \<lparr>notification = WRITE, opt = ''-m'', arg_ip = ''10.0.0.1'', arg_fd = CLOSED,
     arg_port = 80, arg_msg = ''hi''\<rparr>"

lemma demo_line_arguments:
  "interpret_stream demo_connect_line no_arguments = Inr (Some demo_arguments)"
proof -
  have "is_word ''10.0.0.1:80''" "is_word ''hi''" by (simp_all add: is_word_def is_space_def)
  then have "words demo_connect_line = [''-i'', ''10.0.0.1:80'', ''-m'', ''hi'']"
    unfolding demo_connect_line_def by (intro words_unwords) simp
  then show ?thesis
    by (simp add: interpret_stream_line demo_line_address add_message_def no_arguments_def
        demo_arguments_def)
qed

lemma demo_peers_free:
  "\<forall>p \<in> set (peers demo_end_point). \<not> takes demo_arguments p"
  by (simp add: demo_end_point_def request_matches_def demo_arguments_def demo_reader_simps)

theorem unmatched_request_is_lost_witness:
  "\<exists>p. fst (interpretRequest quiet_env 9 demo_connect_line demo_end_point []) =
      Inr (demo_end_point\<lparr>peers := peers demo_end_point @ [p]\<rparr>) \<and>
    que (peer_que p) = [] \<and> peer_ip p = [] \<and> peer_port p = 9 \<and> locIp p = ''10.0.0.1''"
  using unmatched_request_is_lost[OF demo_line_arguments demo_peers_free, of quiet_env 9 "[]"]
  by (intro exI) (auto simp: demo_arguments_def new_queue_def)

section \<open>A peer for a new server\<close>

lemma bind_local_first_call:
  "locIp io \<noteq> [] \<Longrightarrow> \<exists>a ts. snd (bind_local e io fd tr) = tr @ (Inet_pton (locIp io), a) # ts"
  by (simp add: bind_local_def sys_eq Let_def)

text \<open>Naming a new server twice gives a peer that uses the server's address as its own. If the
  uninitialised port of the new peer happens to be 0, the second of two equal request lines
  goes to the peer the first one made; that peer then has the server's address both as remote
  and as local address, so that every socket it opens is first bound to the server's address.\<close>

theorem second_request_binds_to_server:
  assumes "interpret_stream arg no_arguments = Inr (Some st)"
    and "\<forall>p \<in> set (peers ep). \<not> takes st p"
    and "arg_ip st \<noteq> []" and "arg_port st \<noteq> 0" and "arg_fd st = CLOSED"
    and "interpretRequest e 0 arg ep tr = (Inr ep1, tr1)"
  shows "\<exists>p. interpretRequest e j arg ep1 tr1 = (Inr (ep\<lparr>peers := peers ep @ [p]\<rparr>), tr) \<and>
    peer_ip p = arg_ip st \<and> peer_port p = arg_port st \<and> locIp p = arg_ip st \<and>
    locPort p = arg_port st \<and> que (peer_que p) = [(notification st, arg_msg st)] \<and>
    (\<forall>fd tr. \<exists>a ts. snd (bind_local e p fd tr) = tr @ (Inet_pton (arg_ip st), a) # ts)"
proof -
  let ?n = "IO_fields (arg_ip st) (arg_port st) 0 new_TLS"
  let ?p = "(assign_master (arg_ip st) (arg_port st) ?n)
      \<lparr>peer_que := push (notification st, arg_msg st) (peer_que ?n)\<rparr>"
  from assms(1,2,6) have ep1: "ep1 = ep\<lparr>peers := peers ep @ [?n]\<rparr>" "tr1 = tr"
    by (auto simp: interpretRequest_def dispatch_none)
  have "peers ep1 = peers ep @ ?n # []" by (simp add: ep1)
  moreover have "takes st ?n"
    using assms(3-5) by (simp add: request_matches_def IO_fields_def)
  ultimately have "interpretRequest e j arg ep1 tr1 = (Inr (ep1\<lparr>peers := peers ep @ [?p]\<rparr>), tr)"
    using assms(1,2) dispatch_taken[of ep1 "peers ep" ?n "[]" st e j tr]
    by (simp add: interpretRequest_def ep1(2))
  moreover have "peer_ip ?p = arg_ip st" "peer_port ?p = arg_port st" "locIp ?p = arg_ip st"
    "locPort ?p = arg_port st" "que (peer_que ?p) = [(notification st, arg_msg st)]"
    by (simp_all add: assign_master_def IO_fields_def queue_defs)
  ultimately show ?thesis
    using assms(3) bind_local_first_call[of ?p e] ep1(1) by (intro exI[of _ ?p]) auto
qed

theorem second_request_binds_to_server_witness:
  "\<exists>ep1 tr1 p. interpretRequest quiet_env 0 demo_connect_line demo_end_point [] = (Inr ep1, tr1) \<and>
    fst (interpretRequest quiet_env 0 demo_connect_line ep1 tr1) =
      Inr (demo_end_point\<lparr>peers := peers demo_end_point @ [p]\<rparr>) \<and>
    peer_ip p = ''10.0.0.1'' \<and> locIp p = ''10.0.0.1'' \<and> que (peer_que p) = [(WRITE, ''hi'')]"
proof -
  obtain ep1 tr1 where i: "interpretRequest quiet_env 0 demo_connect_line demo_end_point [] = (Inr ep1, tr1)"
    by (simp add: interpretRequest_def demo_line_arguments dispatch_none demo_peers_free)
  from second_request_binds_to_server[OF demo_line_arguments demo_peers_free _ _ _ i, of 0] i
  show ?thesis by (simp add: demo_arguments_def) (elim exE conjE, auto)
qed

section \<open>Peers and the epoll object\<close>

text \<open>A peer that its server refuses believes it is connected: connect closes the socket,
  reports success, keeps the number of the closed descriptor and asks epoll to watch it.\<close>

theorem refused_peer_reports_connected:
  assumes "refuses e" and "locIp io = []" and "locPort io = 0" and "ssl (tls io) = 0"
    and "e tr (Getaddrinfo (peer_ip io) (nat_to_string (unat (peer_port io)))) = g"
    and "ret g = 0" and "infos g \<noteq> []"
  shows "\<exists>fd tr0 a b. fd \<noteq> CLOSED \<and>
    IO_connect e (appendNotificationNode e ep) io tr =
      (True, io\<lparr>peer_fd := fd\<rparr>,
       tr0 @ [(Close fd, a), (Epoll_ctl_add (epoll_fd (ep_epoll ep)) fd default_events, b)])"
proof -
  obtain fd tr0 a where "connectTCP e io tr = (fd, tr0 @ [(Close fd, a)])" "fd \<noteq> CLOSED"
    using connectTCP_refused[OF assms(1-3,5-7)] by blast
  then show ?thesis using assms(4)
    by (simp add: IO_connect_def notifyManager_def appendNotificationNode_run Let_def)
qed

theorem refused_peer_reports_connected_witness:
  "\<exists>io' tr'. IO_connect refusing_env (appendNotificationNode refusing_env demo_end_point) demo_peer []
      = (True, io', tr') \<and> peer_fd io' \<noteq> CLOSED"
  using refused_peer_reports_connected[OF refusing_env_refuses, of demo_peer "[]" _ demo_end_point]
  by (auto simp: demo_peer_def fresh refusing_env_def)

text \<open>The first pass of the timer thread over a list of peers that is not empty raises the
  exception of the first peer's callback, which nobody catches: the timer never gets to a
  second peer or a second pass.\<close>

lemma timer_pass_raises:
  "timer_pass ps = (if ps = [] then Inr () else Inl (Uncaught ''Function not implemented''))"
  by (cases ps) (simp_all add: timerCallback_def)

end
