(* ===== verification/Client_Main.thy ===== *)
theory Client_Main
  imports End_Point
begin

text \<open>
  \<^verbatim>\<open>main.cpp\<close> and \<^verbatim>\<open>ProcessInstance.h\<close>, Linux branch: which process becomes the
  parent, the command line a child sends to it through the message queue, the handler that
  receives it, and the options the parent starts with.
\<close>

section \<open>ProcessInstance.h\<close>

text \<open>\<open>inst_handle\<close> is \<^verbatim>\<open>_handle\<close>. \<^verbatim>\<open>EWOULDBLOCK\<close> is \<open>EAGAIN\<close> on Linux.\<close>

record ProcessInstance =
  inst_handle :: int
  isParent :: bool

definition ProcessInstance_new :: "env \<Rightarrow> trace \<Rightarrow> ProcessInstance outcome \<times> trace" where
  "ProcessInstance_new e tr =
     (let (a, tr1) = sys e Open_lock_file tr
      in if ret a = -1 then (Inl (Uncaught ''open /var/run/client.pid''), tr1)
         else
           let (b, tr2) = sys e (Fcntl_setlk_write (ret a)) tr1
           in if ret b \<noteq> 0 \<and> errno b = EAGAIN
              then (Inr \<lparr>inst_handle = ret a, isParent = (ret b = 0)\<rparr>, tr2)
              else if ret b \<noteq> 0 then (Inl (Uncaught ''fcntl /var/run/client.pid''), tr2)
              else (Inr \<lparr>inst_handle = ret a, isParent = (ret b = 0)\<rparr>, tr2))"

text \<open>The destructor. A descriptor 0 counts as none.\<close>

definition ProcessInstance_destroy :: "env \<Rightarrow> ProcessInstance \<Rightarrow> trace \<Rightarrow> trace" where
  "ProcessInstance_destroy e inst tr =
     (if inst_handle inst \<noteq> 0 then snd (sys e (Close (inst_handle inst)) tr) else tr)"

section \<open>The second instance\<close>

text \<open>
  \<^verbatim>\<open>argv[1]\<close> up to the end of the last argument, as the bytes lie in memory: the arguments
  in sequence, each ended by a zero byte. The zero bytes become spaces.
\<close>

fun argv_block :: "string list \<Rightarrow> string" where
  "argv_block [] = []"
| "argv_block [a] = a"
| "argv_block (a # as) = a @ CHR 0x00 # argv_block as"

definition command_line :: "string list \<Rightarrow> string" where
  "command_line args = map (\<lambda>c. if c = CHR 0x00 then CHR '' '' else c) (argv_block args)"

text \<open>\<open>args\<close> is \<^verbatim>\<open>argv\<close> without the program name. Every path ends the process.\<close>

definition main_child :: "env \<Rightarrow> string list \<Rightarrow> trace \<Rightarrow> stop \<times> trace" where
  "main_child e args tr =
     (if args = [] then (Exit 1, tr)
      else
        let (q, tr1) = sys e (Mq_open False) tr
        in if ret q = -1 then (Exit 1, tr1)
           else
             let (s, tr2) = sys e (Mq_send (ret q) (command_line args)) tr1
             in if ret s = -1 then (Exit 1, tr2) else (Exit 0, tr2))"

section \<open>The handler of a message\<close>

text \<open>
  \<^verbatim>\<open>new_msg_queue\<close>. A failed call is only reported. \<open>optval\<close> of the attributes is
  \<^verbatim>\<open>mq_msgsize\<close> (whatever the uninitialised structure held, when the call failed). The
  terminator is written at \<^verbatim>\<open>buf[rcv]\<close>, whatever \<^verbatim>\<open>rcv\<close>; the string pushed ends at the
  first zero byte.
\<close>

definition new_msg_queue ::
  "env \<Rightarrow> int \<Rightarrow> string ThreadSafeQueue \<Rightarrow> trace \<Rightarrow> string ThreadSafeQueue outcome \<times> trace" where
  "new_msg_queue e mqdes q tr =
     (let (a, tr1) = sys e (Mq_getattr_msgsize mqdes) tr;
          msgsize = nat (optval a);
          (_, tr2) = sys e (Mq_notify mqdes) tr1;
          (m, tr3) = sys e (Malloc msgsize) tr2;
          (r, tr4) = sys e (Mq_receive mqdes msgsize) tr3
      in if ret m = 0 then (Inl (Undefined ''write through a null pointer''), tr4)
         else if ret r < 0 \<or> int msgsize \<le> ret r
         then (Inl (Undefined ''buf[rcv] out of range''), tr4)
         else (Inr (push (takeWhile (\<lambda>c. c \<noteq> CHR 0x00) (take (nat (ret r)) (bytes r))) q), tr4))"

section \<open>The first instance\<close>

text \<open>
  The loop that empties the message queue before the program starts: \<open>None\<close> would be a loop that
  never ends.
\<close>

partial_function (option) drain :: "env \<Rightarrow> int \<Rightarrow> nat \<Rightarrow> trace \<Rightarrow> trace option" where
  "drain e mqdes msgsize tr =
     (let (r, tr1) = sys e (Mq_receive mqdes msgsize) tr
      in if 0 \<le> ret r then drain e mqdes msgsize tr1 else Some tr1)"

definition open_queue :: "env \<Rightarrow> trace \<Rightarrow> (int outcome \<times> trace) option" where
  "open_queue e tr =
     (let (q, tr1) = sys e (Mq_open True) tr
      in if ret q = -1 then Some (Inl (Exit 1), tr1)
         else
           let (n, tr2) = sys e (Mq_notify (ret q)) tr1
           in if ret n = -1 then Some (Inl (Exit 1), tr2)
              else
                let (a, tr3) = sys e (Mq_getattr_msgsize (ret q)) tr2
                in if ret a = -1 then Some (Inl (Exit 1), tr3)
                   else
                     let (m, tr4) = sys e (Malloc (nat (optval a))) tr3
                     in if ret m = 0 then Some (Inl (Exit 1), tr4)
                        else
                          (case drain e (ret q) (nat (optval a)) tr4 of
                             None \<Rightarrow> None | Some tr5 \<Rightarrow> Some (Inr (ret q), tr5)))"

text \<open>
  What \<^verbatim>\<open>getopt_long\<close> returns, one call after the other: the code of the option and
  \<^verbatim>\<open>optarg\<close>. It is the library that reads \<^verbatim>\<open>argv\<close>. \<^verbatim>\<open>port\<close> has no initial value.
\<close>

record options =
  opt_ip :: string
  opt_port :: "16 word"
  with_tls :: bool
  test_timer :: bool

definition take_option :: "int \<times> string \<Rightarrow> options \<Rightarrow> options" where
  "take_option x os =
     (let (code, optarg) = x
      in if code = 1 then os\<lparr>with_tls := True\<rparr>
         else if code = 2 then os\<lparr>test_timer := True\<rparr>
         else if code = of_char (CHR ''i'') then os\<lparr>opt_ip := optarg\<rparr>
         else if code = of_char (CHR ''p'')
         then (case parse_port optarg of Inl _ \<Rightarrow> os | Inr p \<Rightarrow> os\<lparr>opt_port := of_nat p\<rparr>)
         else os)"

definition read_options :: "16 word \<Rightarrow> (int \<times> string) list \<Rightarrow> options" where
  "read_options junk xs =
     fold take_option xs \<lparr>opt_ip = [], opt_port = junk, with_tls = False, test_timer = False\<rparr>"

text \<open>
  The whole of \<^verbatim>\<open>main\<close> up to \<^verbatim>\<open>client.join()\<close>: the message queue descriptor and the
  end point of the first instance. \<open>junk\<close> is the stack content of \<^verbatim>\<open>port\<close>, \<open>junk'\<close> that of the
  first peer's port.
\<close>

definition main ::
  "env \<Rightarrow> string list \<Rightarrow> (int \<times> string) list \<Rightarrow> 16 word \<Rightarrow> 16 word \<Rightarrow> trace \<Rightarrow>
    ((int \<times> EndPoint) outcome \<times> trace) option" where
  "main e args opts junk junk' tr =
     (case ProcessInstance_new e tr of
        (Inl x, tr1) \<Rightarrow> Some (Inl x, tr1)
      | (Inr inst, tr1) \<Rightarrow>
          if \<not> isParent inst
          then (let (x, tr2) = main_child e args tr1 in Some (Inl x, tr2))
          else
            (case open_queue e tr1 of
               None \<Rightarrow> None
             | Some (Inl x, tr2) \<Rightarrow> Some (Inl x, tr2)
             | Some (Inr mqdes, tr2) \<Rightarrow>
                 let os = read_options junk opts
                 in (case EndPoint_new e (opt_ip os) (opt_port os) junk' tr2 of
                       (Inl x, tr3) \<Rightarrow> Some (Inl x, tr3)
                     | (Inr ep, tr3) \<Rightarrow> Some (Inr (mqdes, ep), tr3))))"

section \<open>From a command line to a request\<close>

text \<open>Arguments are C strings: no zero byte in them.\<close>

definition c_string :: "string \<Rightarrow> bool" where
  "c_string s \<longleftrightarrow> CHR 0x00 \<notin> set s"

lemma map_no_zero: "CHR 0x00 \<notin> set a \<Longrightarrow> map (\<lambda>c. if c = CHR 0x00 then CHR '' '' else c) a = a"
  by (induction a) auto

lemma command_line_unwords: "\<forall>a \<in> set args. c_string a \<Longrightarrow> command_line args = unwords args"
  by (induction args rule: argv_block.induct) (auto simp: command_line_def c_string_def map_no_zero)

lemma unwords_c_string: "\<forall>a \<in> set args. c_string a \<Longrightarrow> c_string (unwords args)"
  by (induction args rule: unwords.induct) (auto simp: c_string_def)

lemma takeWhile_c_string: "c_string s \<Longrightarrow> takeWhile (\<lambda>c. c \<noteq> CHR 0x00) s = s"
  by (auto simp: c_string_def takeWhile_eq_all_conv)

text \<open>The environment of one delivery: the message of the child arrives at the handler unchanged.\<close>

definition delivers :: "env \<Rightarrow> int \<Rightarrow> trace \<Rightarrow> string \<Rightarrow> bool" where
  "delivers e mqdes tr s \<longleftrightarrow>
     (\<exists>a n m r. e tr (Mq_getattr_msgsize mqdes) = a \<and>
        e (tr @ [(Mq_getattr_msgsize mqdes, a)]) (Mq_notify mqdes) = n \<and>
        e (tr @ [(Mq_getattr_msgsize mqdes, a), (Mq_notify mqdes, n)]) (Malloc (nat (optval a))) = m \<and>
        e (tr @ [(Mq_getattr_msgsize mqdes, a), (Mq_notify mqdes, n), (Malloc (nat (optval a)), m)])
          (Mq_receive mqdes (nat (optval a))) = r \<and>
        ret m \<noteq> 0 \<and> ret r = int (length s) \<and> take (length s) (bytes r) = s \<and> length s < nat (optval a))"

lemma new_msg_queue_delivers:
  assumes "delivers e mqdes tr s"
  shows "fst (new_msg_queue e mqdes q tr) = Inr (push (takeWhile (\<lambda>c. c \<noteq> CHR 0x00) s) q)"
  using assms by (auto simp: delivers_def new_msg_queue_def sys_eq Let_def)

text \<open>C25: what is typed is what is interpreted, for arguments that are not empty and contain no white space and
  no zero byte: when the handler receives the whole message a second instance makes of them, and it is
  shorter than the queue's message size, it puts one line at the end of the end point's queue, and
  that line is interpreted as exactly the list of arguments, word by word.\<close>

theorem command_line_roundtrip:
  assumes "\<forall>a \<in> set args. is_word a \<and> c_string a" and "delivers e mqdes tr (command_line args)"
  shows "\<exists>q'. fst (new_msg_queue e mqdes q tr) = Inr q' \<and> que q' = que q @ [unwords args] \<and>
    interpret_stream (unwords args) no_arguments = interpret_words args no_arguments"
proof -
  have c: "command_line args = unwords args" using assms(1) by (intro command_line_unwords) auto
  have "c_string (unwords args)" using assms(1) by (intro unwords_c_string) auto
  with new_msg_queue_delivers[OF assms(2), of q] c
  have "fst (new_msg_queue e mqdes q tr) = Inr (push (unwords args) q)"
    by (simp add: takeWhile_c_string)
  moreover have "words (unwords args) = args" using assms(1) by (intro words_unwords) auto
  ultimately show ?thesis by (simp add: tsq.queue_laws interpret_stream_line)
qed

definition delivering_env :: "string \<Rightarrow> env" where
  "delivering_env s tr c =
     (case c of
        Mq_getattr_msgsize _ \<Rightarrow> (answer 0)\<lparr>optval := 8192\<rparr>
      | Malloc _ \<Rightarrow> answer 1
      | Mq_receive _ _ \<Rightarrow> (answer (int (length s)))\<lparr>bytes := s\<rparr>
      | _ \<Rightarrow> answer 0)"

lemma delivering_env_delivers: "length s < 8192 \<Longrightarrow> delivers (delivering_env s) mqdes tr s"
  by (simp add: delivers_def delivering_env_def)

theorem command_line_roundtrip_witness:
  "\<exists>q'. fst (new_msg_queue (delivering_env (command_line [''-f'', ''4'', ''-c''])) 6 new_queue []) = Inr q' \<and>
    que q' = [''-f 4 -c''] \<and>
    interpret_stream ''-f 4 -c'' no_arguments = interpret_words [''-f'', ''4'', ''-c''] no_arguments"
proof -
  let ?a = "[''-f'', ''4'', ''-c'']"
  have w: "\<forall>a \<in> set ?a. is_word a \<and> c_string a" by (simp add: is_word_def is_space_def c_string_def)
  have "delivers (delivering_env (command_line ?a)) 6 [] (command_line ?a)"
    by (rule delivering_env_delivers) (simp add: command_line_def)
  from command_line_roundtrip[OF w this, of new_queue] show ?thesis by (simp add: new_queue_def)
qed

section \<open>A message that fills the buffer\<close>

text \<open>The handler writes its terminator past the buffer it allocated when a message has the full
  size the queue allows, and before the buffer when there is nothing to receive: in both cases
  the behaviour is undefined.\<close>

theorem message_terminator_overruns:
  assumes "\<forall>tr. optval (e tr (Mq_getattr_msgsize mqdes)) = int n" and "\<forall>tr. ret (e tr (Malloc n)) \<noteq> 0"
    and "\<forall>tr. ret (e tr (Mq_receive mqdes n)) = int n \<or> ret (e tr (Mq_receive mqdes n)) = -1"
  shows "fst (new_msg_queue e mqdes q tr) = Inl (Undefined ''buf[rcv] out of range'')"
proof -
  have r: "ret (e t (Mq_receive mqdes n)) < 0 \<or> int n \<le> ret (e t (Mq_receive mqdes n))" for t
    using assms(3)[rule_format, of t] by linarith
  show ?thesis by (simp add: new_msg_queue_def sys_eq Let_def assms(1,2) r)
qed

definition full_message_env :: env where
  "full_message_env tr c =
     (case c of
        Mq_getattr_msgsize _ \<Rightarrow> (answer 0)\<lparr>optval := 4\<rparr>
      | Malloc _ \<Rightarrow> answer 1
      | Mq_receive _ _ \<Rightarrow> (answer 4)\<lparr>bytes := ''full''\<rparr>
      | _ \<Rightarrow> answer 0)"

theorem message_terminator_overruns_witness:
  "fst (new_msg_queue full_message_env 6 new_queue []) = Inl (Undefined ''buf[rcv] out of range'')"
  by (rule message_terminator_overruns[of _ _ 4]) (simp_all add: full_message_env_def)

section \<open>Emptying the queue\<close>

definition receives :: "trace \<Rightarrow> nat" where
  "receives tr = length (filter (\<lambda>x. \<exists>q n. fst x = Mq_receive q n) tr)"

text \<open>The queue holds \<open>k\<close> messages: that many calls succeed, and then none.\<close>

definition holds_messages :: "env \<Rightarrow> nat \<Rightarrow> bool" where
  "holds_messages e k \<longleftrightarrow>
     (\<forall>tr q n. 0 \<le> ret (e tr (Mq_receive q n)) \<longleftrightarrow> receives tr < k)"

lemma drain_counts:
  assumes "holds_messages e k"
  shows "receives tr \<le> k \<Longrightarrow> \<exists>tr'. drain e mqdes n tr = Some tr' \<and> receives tr' = Suc k"
proof (induction "k - receives tr" arbitrary: tr)
  case 0
  then have "receives tr = k" by simp
  with assms show ?case
    by (subst drain.simps) (simp add: sys_eq holds_messages_def receives_def)
next
  case (Suc d)
  let ?tr1 = "tr @ [(Mq_receive mqdes n, e tr (Mq_receive mqdes n))]"
  have r: "receives ?tr1 = Suc (receives tr)" by (simp add: receives_def)
  with Suc have "d = k - receives ?tr1" "receives ?tr1 \<le> k" by simp_all
  from Suc.hyps(1)[OF this] obtain tr' where "drain e mqdes n ?tr1 = Some tr'" "receives tr' = Suc k"
    by blast
  moreover have "0 \<le> ret (e tr (Mq_receive mqdes n))"
    using assms Suc by (simp add: holds_messages_def)
  ultimately show ?case by (subst drain.simps) (simp add: sys_eq)
qed

text \<open>Emptying the message queue at the start ends, however many messages were left in it: with
  \<open>k\<close> messages it returns after \<open>k + 1\<close> calls.\<close>

theorem drain_terminates:
  assumes "holds_messages e k" and "receives tr = 0"
  shows "\<exists>tr'. drain e mqdes n tr = Some tr' \<and> receives tr' = Suc k"
  using drain_counts[OF assms(1), of tr] assms(2) by simp

definition leftover_env :: env where
  "leftover_env tr c = (case c of Mq_receive _ _ \<Rightarrow> answer (if receives tr < 2 then 5 else -1) | _ \<Rightarrow> answer 0)"

theorem drain_terminates_witness:
  "\<exists>tr'. drain leftover_env 6 8192 [] = Some tr' \<and> receives tr' = 3"
  using drain_terminates[of leftover_env 2 "[]" 6 8192]
  by (simp add: holds_messages_def leftover_env_def receives_def[of "[]"] eval_nat_numeral)

section \<open>Options\<close>

lemma main_options:
  assumes "opt_ip (read_options j xs) = opt_ip (read_options j ys)"
    and "opt_port (read_options j xs) = opt_port (read_options j ys)"
  shows "main e args xs j j' tr = main e args ys j j' tr"
  by (simp add: main_def Let_def assms split: prod.split sum.split option.split)

definition same_address :: "options \<Rightarrow> options \<Rightarrow> bool" where
  "same_address os os' \<longleftrightarrow> opt_ip os = opt_ip os' \<and> opt_port os = opt_port os'"

lemma take_option_same: "same_address os os' \<Longrightarrow> same_address (take_option x os) (take_option x os')"
  by (auto simp: take_option_def same_address_def Let_def split: prod.splits sum.splits)

lemma take_option_flag: "fst x \<in> {1, 2} \<Longrightarrow> same_address os (take_option x os)"
  by (auto simp: take_option_def same_address_def split: prod.splits)

lemma fold_options_same:
  "same_address os os' \<Longrightarrow>
    same_address (fold take_option xs os) (fold take_option (filter (\<lambda>x. fst x \<notin> {1, 2}) xs) os')"
proof (induction xs arbitrary: os os')
  case (Cons x xs)
  show ?case
  proof (cases "fst x \<in> {1, 2}")
    case True
    with Cons.prems have "same_address (take_option x os) os'"
      using take_option_flag[OF True, of os] by (simp add: same_address_def)
    from Cons.IH[OF this] True show ?thesis by auto
  next
    case False
    with Cons.IH[OF take_option_same[OF Cons.prems]] show ?thesis by auto
  qed
qed simp

text \<open>The options \<^verbatim>\<open>--ssl\<close> and \<^verbatim>\<open>--timer\<close> have no effect: the program does the same
  without them, for every command line and whatever the system answers.\<close>

theorem ssl_option_ignored:
  "main e args opts junk junk' tr = main e args (filter (\<lambda>x. fst x \<notin> {1, 2}) opts) junk junk' tr"
proof -
  let ?os = "\<lparr>opt_ip = [], opt_port = junk, with_tls = False, test_timer = False\<rparr>"
  have "same_address ?os ?os" by (simp add: same_address_def)
  from fold_options_same[OF this, of opts] show ?thesis
    by (intro main_options) (simp_all only: read_options_def same_address_def)
qed

end
