(* ===== verification/Peer_Life.thy ===== *)
theory Peer_Life
  imports End_Point
begin

text \<open>
  A peer from its constructor on: its thread and its manager act on it in any order, and nobody
  else's calls are in the trace. What holds in every state it can reach: which descriptor and
  which OpenSSL objects it owns, which descriptors its calls use, and what happens to requests.
\<close>

section \<open>The life of a peer\<close>

inductive life_step :: "env \<Rightarrow> manager \<Rightarrow> IO \<times> trace \<Rightarrow> IO \<times> trace \<Rightarrow> bool" for e mgr where
  own: "threadFunc e mgr io tr = Some (io', tr') \<Longrightarrow> life_step e mgr (io, tr) (io', tr')"
| asked: "request ip port fd r msg io = (True, io') \<Longrightarrow> life_step e mgr (io, tr) (io', tr)"

inductive_simps life_step_iff: "life_step e mgr (io, tr) (io', tr')"

text \<open>The state in which the constructor leaves the peer, with the calls it made.\<close>

definition born :: "env \<Rightarrow> bool \<Rightarrow> IO \<times> trace \<Rightarrow> bool" where
  "born e with_ssl s \<longleftrightarrow>
     (\<exists>ip port junk io tr. IO_new e ip port with_ssl junk [] = (Inr io, tr) \<and> s = (io, tr))"

lemma IO_new_fields:
  "IO_new e ip port with_ssl junk tr = (Inr io, tr') \<Longrightarrow> io = IO_fields ip port junk (tls io)"
  by (auto simp: IO_new_def IO_fields_def split: prod.splits sum.splits if_splits)

text \<open>What taking a query from the queue does, by kind of query and state of the connection.\<close>

lemma serve_cases:
  assumes "serve e io tr = Some (io', tr')"
  obtains (drop) q where "io' = io\<lparr>peer_que := q\<rparr>" "tr' = tr" "peer_fd io = CLOSED"
  | (start) q s where "io' = io\<lparr>peer_que := q, servant := s\<rparr>" "tr' = tr"
      "s = Connecting \<or> s = Reading False \<and> peer_fd io \<noteq> CLOSED"
  | (write_it) q m where "io' = io\<lparr>peer_que := q\<rparr>"
      "tr' = snd (IO_write e (io\<lparr>peer_que := q\<rparr>) m tr)" "peer_fd io \<noteq> CLOSED"
  | (close_it) q a where "peer_fd io \<noteq> CLOSED"
      "io' = io\<lparr>peer_que := q, peer_fd := CLOSED\<rparr>" "tr' = tr @ [(Close (peer_fd io), a)]"
proof -
  obtain r m q where p: "pop (peer_que io) = Some ((r, m), q)"
    using assms by (auto simp: serve_def split: option.splits)
  note a = assms[unfolded serve_def Let_def, simplified p, simplified]
  show thesis
  proof (cases "peer_fd io = CLOSED \<and> r \<noteq> CONNECT")
    case True
    with a show thesis by (intro drop[where q = q]) auto
  next
    case False
    with a show thesis
      by (cases r) (auto simp: IO_close_eq intro: write_it close_it
          start[where q = q and s = Connecting] start[where q = q and s = "Reading False"])
  qed
qed

text \<open>What a round of the reading loop does.\<close>

lemma reading_round_cases:
  assumes "servant io = Reading c" and "reading_round e c io tr = (io', tr')"
  obtains (read_it) q s where "io' = io\<lparr>peer_que := q, servant := s\<rparr>"
      "tr' = snd (IO_read e io tr)" "s = Waiting \<or> (\<exists>c'. s = Reading c')"
  | (read_close) a where "c" "io' = io\<lparr>servant := Waiting, peer_fd := CLOSED\<rparr>"
      "tr' = snd (IO_read e io tr) @ [(Close (peer_fd io), a)]"
proof -
  obtain res tr1 where r: "IO_read e io tr = (res, tr1)" by fastforce
  have same: "io = io\<lparr>peer_que := peer_que io, servant := Reading c\<rparr>"
    using assms(1) by simp
  show thesis
  proof (cases "res = -1 \<and> c")
    case True
    with assms r show thesis
      by (intro read_close[where a = "e tr1 (Close (peer_fd io))"])
        (auto simp: reading_round_def IO_close_eq)
  next
    case False
    let ?q = "if res = 0 then clear (peer_que io) else peer_que io"
    let ?s = "if res = -1 then Waiting else if res = 0 then Reading True else Reading c"
    have "io' = io\<lparr>peer_que := ?q, servant := ?s\<rparr> \<and> tr' = tr1"
      using assms r False same by (auto simp: reading_round_def)
    then show thesis using r by (intro read_it[where q = ?q and s = ?s]) auto
  qed
qed

text \<open>The shape of a thread's step: every case of the loop with the facts that matter later.\<close>

lemma threadFunc_cases:
  assumes "threadFunc e mgr io tr = Some (io', tr')"
  obtains (drop) q where "servant io = Waiting" "io' = io\<lparr>peer_que := q\<rparr>" "tr' = tr" "peer_fd io = CLOSED"
  | (start) q s where "servant io = Waiting" "io' = io\<lparr>peer_que := q, servant := s\<rparr>" "tr' = tr"
      "s = Connecting \<or> s = Reading False \<and> peer_fd io \<noteq> CLOSED"
  | (write_it) q m where "servant io = Waiting" "io' = io\<lparr>peer_que := q\<rparr>"
      "tr' = snd (IO_write e (io\<lparr>peer_que := q\<rparr>) m tr)" "peer_fd io \<noteq> CLOSED"
  | (close_it) q a where "servant io = Waiting" "peer_fd io \<noteq> CLOSED"
      "io' = io\<lparr>peer_que := q, peer_fd := CLOSED\<rparr>" "tr' = tr @ [(Close (peer_fd io), a)]"
  | (connect_it) b tr1 a where "servant io = Connecting" "peer_fd io = CLOSED"
      "IO_connect e mgr io tr = (b, io', tr1)" "tr' = tr1 @ [(Sleep 5, a)]"
  | (connected) "servant io = Connecting" "peer_fd io \<noteq> CLOSED" "io' = io\<lparr>servant := Waiting\<rparr>" "tr' = tr"
  | (read_it) c q s where "servant io = Reading c" "io' = io\<lparr>peer_que := q, servant := s\<rparr>"
      "tr' = snd (IO_read e io tr)" "s = Waiting \<or> (\<exists>c'. s = Reading c')"
  | (read_close) a where "servant io = Reading True" "io' = io\<lparr>servant := Waiting, peer_fd := CLOSED\<rparr>"
      "tr' = snd (IO_read e io tr) @ [(Close (peer_fd io), a)]"
proof (cases "servant io")
  case Waiting
  then have "serve e io tr = Some (io', tr')" using assms by (simp add: threadFunc_def)
  then show thesis using Waiting
    by (cases rule: serve_cases) (auto intro: drop start write_it close_it)
next
  case Connecting
  obtain b i t where c: "IO_connect e mgr io tr = (b, i, t)" by (metis prod_cases3)
  show thesis
  proof (cases "peer_fd io = CLOSED")
    case True
    with assms Connecting c show thesis
      by (intro connect_it[where b = b and ?tr1.0 = t]) (auto simp: threadFunc_def connecting_round_def sys_eq)
  next
    case False
    with assms Connecting show thesis
      by (intro connected) (auto simp: threadFunc_def connecting_round_def)
  qed
next
  case (Reading c)
  then have "reading_round e c io tr = (io', tr')" using assms by (simp add: threadFunc_def)
  from Reading this show thesis
    by (cases rule: reading_round_cases) (auto simp: Reading intro: read_it read_close)
qed

section \<open>A peer nobody has used\<close>

definition idle :: "IO \<Rightarrow> bool" where
  "idle p \<longleftrightarrow> peer_fd p = CLOSED \<and> servant p = Waiting \<and> que (peer_que p) = []"

lemma idle_does_nothing: "idle io \<Longrightarrow> threadFunc e mgr io tr = None"
  by (simp add: idle_def threadFunc_def serve_def pop_def)

text \<open>A peer without an address is idle, and takes a request only together with an address.\<close>

lemma request_idle:
  assumes "request ip port fd r msg io = (True, io')" and "peer_ip io = [] \<longrightarrow> idle io"
  shows "peer_ip io' \<noteq> []"
  using assms
  by (auto simp: request_def request_matches_def assign_master_def idle_def Let_def split: if_splits)

text \<open>To a peer with an address, a request is a push and nothing else, whatever it decides on.\<close>

lemma request_pushes:
  assumes "peer_ip io \<noteq> []"
  shows "request ip port fd r msg io =
    (if request_matches ip port fd io then (True, io\<lparr>peer_que := push (r, msg) (peer_que io)\<rparr>)
     else (False, io))"
  using assms by (simp add: request_def assign_master_def Let_def)

section \<open>Calls on real descriptors only\<close>

lemma IO_read_real_fd: "peer_fd io \<noteq> CLOSED \<Longrightarrow> emits real_fd tr (snd (IO_read e io tr))"
  by (auto simp: IO_read_def Let_def split: prod.splits if_splits
      dest!: sysD handle_io_failure_real_fd intro!: emits.add)
    (auto simp: extends_def)

lemma IO_write_real_fd: "peer_fd io \<noteq> CLOSED \<Longrightarrow> emits real_fd tr (snd (IO_write e io m tr))"
  by (simp add: IO_write_def Let_def split_beta)

lemma IO_new_tls_call:
  "IO_new e ip port with_ssl junk tr = (r, tr') \<Longrightarrow> emits tls_call tr tr'"
proof (cases with_ssl)
  case True
  assume n: "IO_new e ip port with_ssl junk tr = (r, tr')"
  obtain c tr1 where c: "create_context e new_TLS tr = (c, tr1)" by fastforce
  then have 1: "emits tls_call tr tr1" by (auto simp: create_context_def sys_eq Let_def)
  show ?thesis
  proof (cases c)
    case (Inl x)
    with n c True 1 show ?thesis by (simp add: IO_new_def)
  next
    case (Inr t1)
    obtain t2 tr2 where t2: "configure_context e TLS1_2_VERSION [] t1 tr1 = (t2, tr2)" by fastforce
    obtain t3 tr3 where t3: "create_object e t2 tr2 = (t3, tr3)" by fastforce
    from 1 configure_context_tls_call[of tr1 e TLS1_2_VERSION "[]" t1] t2
    have "emits tls_call tr tr2" by (auto intro: emits.trans)
    with create_object_tls_call[of tr2 e t2] t3 have "emits tls_call tr tr3" by (auto intro: emits.trans)
    with n c True Inr t2 t3 show ?thesis by (simp add: IO_new_def)
  qed
qed (simp add: IO_new_def)

lemmas IO_new_real_fd = emits_mono[OF IO_new_tls_call tls_call_real_fd]

lemmas IO_new_neutral = emits_mono[OF IO_new_tls_call tls_call_neutral]

lemma connect_real_fd:
  assumes "epoll_fd (ep_epoll ep) \<noteq> CLOSED"
    and "IO_connect e (appendNotificationNode e ep) io tr = (ok, io', tr')"
  shows "emits real_fd tr tr'"
  by (rule IO_connect_emits[OF assms(2)])
    (simp_all add: tcp_call_real_fd tls_call_real_fd appendNotificationNode_run assms(1) Let_def)

text \<open>
  The invariant: a peer in its reading loop has a descriptor, and no call so far was made on
  \<open>CLOSED\<close>. The second part needs an epoll descriptor.
\<close>

definition life_inv :: "EndPoint \<Rightarrow> IO \<times> trace \<Rightarrow> bool" where
  "life_inv ep s \<longleftrightarrow> (\<forall>c. servant (fst s) = Reading c \<longrightarrow> peer_fd (fst s) \<noteq> CLOSED) \<and>
     (epoll_fd (ep_epoll ep) \<noteq> CLOSED \<longrightarrow> emits real_fd [] (snd s))"

lemma life_inv_born: "born e b s \<Longrightarrow> life_inv ep s"
  by (auto simp: born_def life_inv_def dest: IO_new_fields IO_new_real_fd)
    (metis IO_new_fields IO_fields_def IO.select_convs(5) servant.distinct(3))

lemma life_inv_own:
  assumes "life_inv ep (io, tr)" and "threadFunc e (appendNotificationNode e ep) io tr = Some (io', tr')"
  shows "life_inv ep (io', tr')"
proof -
  from assms(1) have r: "\<forall>c. servant io = Reading c \<longrightarrow> peer_fd io \<noteq> CLOSED"
    and t: "epoll_fd (ep_epoll ep) \<noteq> CLOSED \<Longrightarrow> emits real_fd [] tr" by (auto simp: life_inv_def)
  note go = emits.trans[OF t]
  from assms(2) show ?thesis
  proof (cases rule: threadFunc_cases)
    case (connect_it b tr1 a)
    have "epoll_fd (ep_epoll ep) \<noteq> CLOSED \<Longrightarrow> emits real_fd [] tr'"
      using connect_it(4) connect_real_fd[OF _ connect_it(3)] by (auto intro!: emits.add go)
    moreover have "servant io' = Connecting"
      using connect_it(1) IO_connect_frame[OF connect_it(3)] by (metis IO.select_convs(5) IO.surjective IO.update_convs(3) IPeer.update_convs(3))
    ultimately show ?thesis by (simp add: life_inv_def)
  next
    case (read_it c q s)
    with r t show ?thesis by (auto simp: life_inv_def intro: go IO_read_real_fd)
  next
    case (read_close a)
    with r t show ?thesis
      by (auto simp: life_inv_def intro!: emits.add go IO_read_real_fd)
  qed (use t in \<open>auto simp: life_inv_def intro!: emits.add go IO_write_real_fd\<close>)
qed

interpretation peer_life:
  invariant_system "born e b" "life_step e (appendNotificationNode e ep)" "life_inv ep" for e b ep
proof unfold_locales
  fix s t assume i: "life_inv ep s" and "life_step e (appendNotificationNode e ep) s t"
  from this(2) show "life_inv ep t"
  proof cases
    case (own io tr io' tr')
    with i show ?thesis using life_inv_own by blast
  next
    case (asked ip port fd r msg io io' tr)
    with i request_frame[OF asked(3)] show ?thesis by (simp add: life_inv_def)
  qed
qed (rule life_inv_born)

lemma life_invD:
  assumes "reachable (born e b) (life_step e (appendNotificationNode e ep)) (io, tr)"
  shows "(epoll_fd (ep_epoll ep) \<noteq> CLOSED \<longrightarrow> list_all (\<lambda>x. real_fd (fst x)) tr) \<and>
    (\<forall>c. servant io = Reading c \<longrightarrow> peer_fd io \<noteq> CLOSED)"
  using peer_life.inv_reachable[OF assms] by (simp add: life_inv_def extends_def)

text \<open>C27: no call of a peer is made on the number -1, provided that the end point's
  \<^verbatim>\<open>epoll_create1\<close> succeeded: from its constructor on, whatever requests its manager delivers
  and whenever, every system call that takes a descriptor of a socket takes one that is not -1, and
  every \<^verbatim>\<open>epoll_ctl\<close> two such; a peer in its reading loop has a descriptor. (After a failed
  \<^verbatim>\<open>epoll_create1\<close> the end point works on with -1 and hands it to every \<^verbatim>\<open>epoll_ctl\<close>.)\<close>

theorem peer_uses_real_descriptors:
  assumes "reachable (born e b) (life_step e (appendNotificationNode e ep)) (io, tr)"
    and "epoll_fd (ep_epoll ep) \<noteq> CLOSED"
  shows "list_all (\<lambda>x. real_fd (fst x)) tr \<and> (\<forall>c. servant io = Reading c \<longrightarrow> peer_fd io \<noteq> CLOSED)"
  using life_invD[OF assms(1)] assms(2) by simp

text \<open>A life for the witnesses: a new peer is given an address and a request to connect.\<close>

definition young_peer :: IO where
  "young_peer = (IO_fields [] 0 0 new_TLS)
     \<lparr>peer_ip := ''127.0.0.1'', peer_port := 80, peer_que := \<lparr>que = [(CONNECT, [])]\<rparr>\<rparr>"

lemma young_peer_reachable: "reachable (born e False) (life_step e mgr) (young_peer, [])"
proof -
  have "born e False (IO_fields [] 0 0 new_TLS, [])" unfolding born_def using IO_new_plain by blast
  then have "reachable (born e False) (life_step e mgr) (IO_fields [] 0 0 new_TLS, [])"
    by (rule reachable_init)
  moreover have "request ''127.0.0.1'' 80 CLOSED CONNECT [] (IO_fields [] 0 0 new_TLS) = (True, young_peer)"
    by (simp add: request_def request_matches_def assign_master_def IO_fields_def young_peer_def queue_defs)
  ultimately show ?thesis by (blast intro: reachable_step life_step.asked)
qed

lemma young_peer_connects:
  "\<exists>io tr. reachable (born e False) (life_step e mgr) (io, tr) \<and> tr \<noteq> [] \<and> servant io = Connecting"
proof -
  let ?io = "young_peer\<lparr>peer_que := \<lparr>que = []\<rparr>, servant := Connecting\<rparr>"
  have "threadFunc e mgr young_peer [] = Some (?io, [])"
    by (simp add: threadFunc_def serve_def young_peer_def IO_fields_def pop_def)
  with young_peer_reachable have r: "reachable (born e False) (life_step e mgr) (?io, [])"
    by (blast intro: reachable_step life_step.own)
  obtain b io1 tr1 where c: "IO_connect e mgr ?io [] = (b, io1, tr1)" by (metis prod_cases3)
  then have "threadFunc e mgr ?io [] = Some (io1, tr1 @ [(Sleep 5, e tr1 (Sleep 5))])"
    by (simp add: threadFunc_def connecting_round_def young_peer_def IO_fields_def sys_eq)
  with r have "reachable (born e False) (life_step e mgr) (io1, tr1 @ [(Sleep 5, e tr1 (Sleep 5))])"
    by (blast intro: reachable_step life_step.own)
  moreover have "servant io1 = Connecting"
    by (subst IO_connect_frame[OF c]) simp
  ultimately show ?thesis by blast
qed

theorem peer_uses_real_descriptors_witness:
  "\<exists>io tr. reachable (born refusing_env False)
      (life_step refusing_env (appendNotificationNode refusing_env demo_end_point)) (io, tr) \<and>
    tr \<noteq> [] \<and> list_all (\<lambda>x. real_fd (fst x)) tr"
  using young_peer_connects[of refusing_env "appendNotificationNode refusing_env demo_end_point"]
    peer_uses_real_descriptors[of refusing_env False demo_end_point]
  by (auto simp: demo_end_point_def CLOSED_def)

section \<open>The descriptor a peer owns\<close>

text \<open>Of all descriptors the peer has opened, at most the one in \<^verbatim>\<open>_fd\<close> is open.\<close>

definition owns_fd :: "IO \<times> trace \<Rightarrow> bool" where
  "owns_fd s \<longleftrightarrow> open_after [] (snd s) = [] \<or>
     peer_fd (fst s) \<noteq> CLOSED \<and> open_after [] (snd s) = [peer_fd (fst s)]"

lemma emits_neutral_open: "emits neutral tr tr' \<Longrightarrow> open_after os tr' = open_after os tr"
  by (auto simp: extends_def open_after_append dest: neutral_leaves[unfolded leaves_def])

lemma IO_read_neutral: "emits neutral tr (snd (IO_read e io tr))"
  by (auto simp: IO_read_def Let_def split: prod.splits if_splits
      dest!: sysD handle_io_failure_neutral intro!: emits.add)
    (auto simp: extends_def)

lemma IO_write_neutral: "emits neutral tr (snd (IO_write e io m tr))"
  by (simp add: IO_write_def Let_def split_beta)

lemma owns_fd_own:
  assumes "setfl_works e" and "owns_fd (io, tr)"
    and "threadFunc e (appendNotificationNode e ep) io tr = Some (io', tr')"
  shows "owns_fd (io', tr')"
  using assms(3)
proof (cases rule: threadFunc_cases)
  case (write_it q m)
  with assms(2) show ?thesis
    by (simp add: owns_fd_def emits_neutral_open[OF IO_write_neutral])
next
  case (close_it q a)
  with assms(2) show ?thesis by (auto simp: owns_fd_def open_after_append)
next
  case (connect_it b tr1 a)
  with assms(2) have o: "open_after [] tr = []" by (simp add: owns_fd_def)
  from end_point_manager.IO_connect_no_leak[OF assms(1) connect_it(3), of "[]"] o connect_it(4)
  show ?thesis by (auto simp: owns_fd_def extends_def leaves_def open_after_append)
next
  case (read_it c q s)
  with assms(2) show ?thesis
    by (simp add: owns_fd_def emits_neutral_open[OF IO_read_neutral])
next
  case (read_close a)
  with assms(2) show ?thesis
    by (auto simp: owns_fd_def open_after_append emits_neutral_open[OF IO_read_neutral])
qed (use assms(2) in \<open>auto simp: owns_fd_def\<close>)

lemma owns_fd_reachable:
  assumes "setfl_works e"
    and "reachable (born e b) (life_step e (appendNotificationNode e ep)) s"
  shows "owns_fd s"
proof -
  have "invariant_system (born e b) (life_step e (appendNotificationNode e ep)) owns_fd"
  proof unfold_locales
    fix s assume "born e b s"
    then show "owns_fd s"
      by (auto simp: born_def owns_fd_def emits_neutral_open dest!: IO_new_neutral)
  next
    fix s t assume i: "owns_fd s" and "life_step e (appendNotificationNode e ep) s t"
    from this(2) show "owns_fd t"
    proof cases
      case (own io tr io' tr')
      with i show ?thesis using owns_fd_own[OF assms(1)] by blast
    next
      case (asked ip port fd r msg io io' tr)
      with i request_frame[OF asked(3)] show ?thesis by (simp add: owns_fd_def)
    qed
  qed
  then show ?thesis using assms(2) by (rule invariant_system.inv_reachable)
qed

text \<open>C13: a peer never leaks a descriptor: through any number of connection attempts, closes and
  requests, at most one of the sockets it opened is open, the one whose number it keeps; a
  peer that counts as closed has none open. (As long as F_SETFL does not fail.)\<close>

theorem peer_owns_one_descriptor:
  assumes "setfl_works e"
    and "reachable (born e b) (life_step e (appendNotificationNode e ep)) (io, tr)"
  shows "open_after [] tr = [] \<or> peer_fd io \<noteq> CLOSED \<and> open_after [] tr = [peer_fd io]"
  using owns_fd_reachable[OF assms] by (simp add: owns_fd_def)

theorem peer_owns_one_descriptor_witness:
  "\<exists>io tr. reachable (born refusing_env False)
      (life_step refusing_env (appendNotificationNode refusing_env demo_end_point)) (io, tr) \<and>
    tr \<noteq> [] \<and> (open_after [] tr = [] \<or> open_after [] tr = [peer_fd io])"
proof -
  have "setfl_works refusing_env" using refusing_env_refuses by (simp add: refuses_def)
  from peer_owns_one_descriptor[OF this, of False demo_end_point]
    young_peer_connects[of refusing_env "appendNotificationNode refusing_env demo_end_point"]
  show ?thesis by blast
qed

section \<open>Serving the queue\<close>

fun thread_rounds :: "env \<Rightarrow> manager \<Rightarrow> nat \<Rightarrow> IO \<times> trace \<Rightarrow> (IO \<times> trace) option" where
  "thread_rounds e mgr 0 s = Some s"
| "thread_rounds e mgr (Suc n) (io, tr) =
     (case threadFunc e mgr io tr of None \<Rightarrow> None | Some s \<Rightarrow> thread_rounds e mgr n s)"

lemma threadFunc_pop:
  assumes "servant io = Waiting" and "que (peer_que io) = x # xs"
  shows "threadFunc e mgr io tr =
    (let io1 = io\<lparr>peer_que := \<lparr>que = xs\<rparr>\<rparr>
     in if peer_fd io = CLOSED \<and> fst x \<noteq> CONNECT then Some (io1, tr)
        else Some (case fst x of
            CONNECT \<Rightarrow> (io1\<lparr>servant := Connecting\<rparr>, tr)
          | READ \<Rightarrow> (io1\<lparr>servant := Reading False\<rparr>, tr)
          | WRITE \<Rightarrow> (io1, snd (IO_write e io1 (snd x) tr))
          | CLOSE \<Rightarrow> snd (IO_close e io1 tr)))"
proof -
  from assms(2) have "peer_que io = \<lparr>que = x # xs\<rparr>" by simp
  then show ?thesis
    by (cases x) (simp add: threadFunc_def serve_def pop_def assms(1) Let_def split: req.split)
qed

text \<open>What is asked of a peer without connection is forgotten: a disconnected peer takes every
  request except a connect from its queue and makes no call for it, so a message given to it
  before it is connected is never sent.\<close>

theorem disconnected_requests_dropped:
  assumes "peer_fd io = CLOSED" and "servant io = Waiting"
    and "\<forall>x \<in> set (que (peer_que io)). fst x \<noteq> CONNECT"
  shows "thread_rounds e mgr (length (que (peer_que io))) (io, tr) =
    Some (io\<lparr>peer_que := \<lparr>que = []\<rparr>\<rparr>, tr)"
  using assms
proof (induction "que (peer_que io)" arbitrary: io)
  case Nil
  then have "peer_que io = \<lparr>que = []\<rparr>" by simp
  then have "io\<lparr>peer_que := \<lparr>que = []\<rparr>\<rparr> = io" by simp
  with Nil show ?case by simp
next
  case (Cons x xs)
  let ?io1 = "io\<lparr>peer_que := \<lparr>que = xs\<rparr>\<rparr>"
  have q: "que (peer_que io) = x # xs" using Cons.hyps(2) by simp
  have "thread_rounds e mgr (length (que (peer_que ?io1))) (?io1, tr) =
      Some (?io1\<lparr>peer_que := \<lparr>que = []\<rparr>\<rparr>, tr)"
    by (rule Cons.hyps(1)) (use Cons.prems q in simp_all)
  with Cons.prems q show ?case by (simp add: threadFunc_pop[OF _ q])
qed

theorem disconnected_requests_dropped_witness:
  "thread_rounds quiet_env demo_manager 2
      (demo_peer\<lparr>peer_que := \<lparr>que = [(WRITE, ''hi''), (CLOSE, [])]\<rparr>\<rparr>, []) =
    Some (demo_peer\<lparr>peer_que := \<lparr>que = []\<rparr>\<rparr>, [])"
  using disconnected_requests_dropped[of "demo_peer\<lparr>peer_que := \<lparr>que = [(WRITE, ''hi''), (CLOSE, [])]\<rparr>\<rparr>"
      quiet_env demo_manager "[]"]
  by (simp add: demo_peer_def IO_fields_def numeral_2_eq_2)

definition write_call :: "IO \<Rightarrow> string \<Rightarrow> sysc" where
  "write_call io m = (if ssl (tls io) \<noteq> 0 then SSL_write (ssl (tls io)) m else Write (peer_fd io) m)"

lemma IO_write_run: "snd (IO_write e io m tr) = tr @ [(write_call io m, e tr (write_call io m))]"
  by (simp add: IO_write_def write_call_def sys_eq)

lemma sends_in_order:
  assumes "peer_fd io \<noteq> CLOSED" and "servant io = Waiting"
    and "que (peer_que io) = map (Pair WRITE) ms @ rest"
  shows "\<exists>run. thread_rounds e mgr (length ms) (io, tr) =
      Some (io\<lparr>peer_que := \<lparr>que = rest\<rparr>\<rparr>, tr @ run) \<and> map fst run = map (write_call io) ms"
  using assms
proof (induction ms arbitrary: io tr)
  case Nil
  then have "peer_que io = \<lparr>que = rest\<rparr>" by simp
  then have "io\<lparr>peer_que := \<lparr>que = rest\<rparr>\<rparr> = io" by simp
  then show ?case by simp
next
  case (Cons m ms)
  let ?io1 = "io\<lparr>peer_que := \<lparr>que = map (Pair WRITE) ms @ rest\<rparr>\<rparr>"
  let ?a = "(write_call io m, e tr (write_call io m))"
  have q: "que (peer_que io) = (WRITE, m) # map (Pair WRITE) ms @ rest" using Cons.prems by simp
  have w: "write_call ?io1 = write_call io" by (simp add: write_call_def fun_eq_iff)
  obtain run where r: "thread_rounds e mgr (length ms) (?io1, tr @ [?a]) =
      Some (?io1\<lparr>peer_que := \<lparr>que = rest\<rparr>\<rparr>, (tr @ [?a]) @ run)" "map fst run = map (write_call ?io1) ms"
    using Cons.IH[of ?io1 "tr @ [?a]"] Cons.prems by auto
  have "threadFunc e mgr io tr = Some (?io1, tr @ [?a])"
    using Cons.prems(1,2) by (simp add: threadFunc_pop[OF _ q] IO_write_run w)
  with r w show ?case by (intro exI[of _ "?a # run"]) simp
qed

text \<open>C21: a connected peer whose thread waits in \<^verbatim>\<open>pop\<close> (one in its reading loop does not
  look at its queue) sends the messages in its queue in the order they were asked for, each with exactly one call on its connection, encrypted exactly when it has a TLS object; what
  the call returns, an error or a partial write, changes nothing.\<close>

theorem messages_sent_in_order:
  assumes "peer_fd io \<noteq> CLOSED" and "servant io = Waiting"
    and "que (peer_que io) = map (Pair WRITE) ms @ rest"
  shows "\<exists>run. thread_rounds e mgr (length ms) (io, tr) =
      Some (io\<lparr>peer_que := \<lparr>que = rest\<rparr>\<rparr>, tr @ run) \<and> map fst run = map (write_call io) ms"
  by (rule sends_in_order[OF assms])

theorem messages_sent_in_order_witness:
  "\<exists>run. thread_rounds quiet_env demo_manager 2
      (demo_reader\<lparr>servant := Waiting, peer_que := \<lparr>que = [(WRITE, ''a''), (WRITE, ''b''), (CLOSE, [])]\<rparr>\<rparr>, []) =
    Some (demo_reader\<lparr>servant := Waiting, peer_que := \<lparr>que = [(CLOSE, [])]\<rparr>\<rparr>, run) \<and>
    map fst run = [Write 5 ''a'', Write 5 ''b'']"
  using messages_sent_in_order[of "demo_reader\<lparr>servant := Waiting,
      peer_que := \<lparr>que = [(WRITE, ''a''), (WRITE, ''b''), (CLOSE, [])]\<rparr>\<rparr>" "[''a'', ''b'']" "[(CLOSE, [])]"
      quiet_env demo_manager "[]"]
  by (simp add: demo_reader_simps write_call_def numeral_2_eq_2)

section \<open>From the request to connect to the messages\<close>

text \<open>
  A server that accepts: the resolver knows it, a socket can be made and set up, and
  \<^verbatim>\<open>connect\<close> succeeds at once or, as usual on a non-blocking socket, is in progress and
  completes without error within the ten seconds of \<^verbatim>\<open>select\<close>.
\<close>

definition accepting :: "env \<Rightarrow> int \<Rightarrow> bool" where
  "accepting e fd \<longleftrightarrow> fd \<noteq> CLOSED \<and> setfl_works e \<and>
     (\<forall>tr h p. ret (e tr (Getaddrinfo h p)) = 0 \<and> infos (e tr (Getaddrinfo h p)) \<noteq> []) \<and>
     (\<forall>tr f t p. ret (e tr (Socket f t p)) = fd) \<and>
     (\<forall>tr s. ret (e tr (Setsockopt_reuseaddr s)) \<noteq> -1) \<and>
     (\<forall>tr s a. ret (e tr (Connect s a)) \<noteq> -1 \<or> errno (e tr (Connect s a)) = EINPROGRESS) \<and>
     (\<forall>tr s n. 0 < ret (e tr (Select_write s n)) \<and> writable (e tr (Select_write s n))) \<and>
     (\<forall>tr s. ret (e tr (Getsockopt_error s)) \<noteq> -1 \<and> optval (e tr (Getsockopt_error s)) = 0)"

text \<open>In a run of calls, \<^verbatim>\<open>fd\<close> was connected to an address that the resolver gave for a host and port.\<close>

definition connects_to :: "string \<Rightarrow> 16 word \<Rightarrow> int \<Rightarrow> trace \<Rightarrow> bool" where
  "connects_to ip port fd run \<longleftrightarrow>
     (\<exists>g ai. (Getaddrinfo ip (nat_to_string (unat port)), g) \<in> set run \<and> ai \<in> set (infos g) \<and>
        Connect fd (ai_addr ai) \<in> fst ` set run)"

lemma await_connect_accepted:
  assumes "accepting e fd"
  shows "\<exists>ts. await_connect e s tr = (Break s, tr @ ts)"
proof -
  have "ret (e tr (Select_write s 10)) > 0" using assms by (simp add: accepting_def)
  then have "ret (e tr (Select_write s 10)) \<noteq> -1" "ret (e tr (Select_write s 10)) \<noteq> 0" by linarith+
  with assms show ?thesis by (simp add: accepting_def await_connect_def sys_eq)
qed

lemma start_connect_accepted:
  assumes "accepting e fd"
  shows "\<exists>ts. start_connect e ai s tr = (Break s, tr @ ts) \<and> Connect s (ai_addr ai) \<in> fst ` set ts"
proof -
  obtain n tr1 where n: "setNonBlock e s tr = (n, tr1)" by fastforce
  let ?c = "e tr1 (Connect s (ai_addr ai))"
  have "n \<noteq> -1" using assms setNonBlock_works[of e s tr] n by (simp add: accepting_def)
  moreover from setNonBlock_run[OF n] obtain xs where "tr1 = tr @ xs" by blast
  moreover obtain ts where "await_connect e s (tr1 @ [(Connect s (ai_addr ai), ?c)]) =
      (Break s, (tr1 @ [(Connect s (ai_addr ai), ?c)]) @ ts)"
    using await_connect_accepted[OF assms] by blast
  moreover have "ret ?c \<noteq> -1 \<or> errno ?c = EINPROGRESS" using assms by (simp add: accepting_def)
  ultimately show ?thesis using n by (auto simp: start_connect_def sys_eq)
qed

lemma try_address_accepted:
  assumes "accepting e fd" and "locIp io = []" and "locPort io = 0"
  shows "\<exists>ts. try_address e io ai tr = (Break fd, tr @ ts) \<and> Connect fd (ai_addr ai) \<in> fst ` set ts"
proof -
  let ?n = "(Getnameinfo (ai_addr ai), e tr (Getnameinfo (ai_addr ai)))"
  let ?k = "Socket (ai_family ai) (ai_socktype ai) (ai_protocol ai)"
  let ?s = "(?k, e (tr @ [?n]) ?k)"
  let ?o = "(Setsockopt_reuseaddr fd, e (tr @ [?n, ?s]) (Setsockopt_reuseaddr fd))"
  have "fd \<noteq> CLOSED" and "ret (e t (Socket f y p)) = fd" and "ret (e t (Setsockopt_reuseaddr s)) \<noteq> -1" for t f y p s
    using assms(1) by (simp_all add: accepting_def)
  moreover obtain ts where "start_connect e ai fd (tr @ [?n, ?s, ?o]) = (Break fd, (tr @ [?n, ?s, ?o]) @ ts)"
    "Connect fd (ai_addr ai) \<in> fst ` set ts"
    using start_connect_accepted[OF assms(1)] by blast
  ultimately show ?thesis using assms(2,3)
    by (intro exI[of _ "?n # ?s # ?o # ts"]) (simp add: try_address_def use_socket_def bind_local_def sys_eq)
qed

lemma connectTCP_accepted:
  assumes "accepting e fd" and "locIp io = []" and "locPort io = 0"
  shows "\<exists>run. connectTCP e io tr = (fd, tr @ run) \<and> connects_to (peer_ip io) (peer_port io) fd run"
proof -
  let ?c = "Getaddrinfo (peer_ip io) (nat_to_string (unat (peer_port io)))"
  let ?g = "e tr ?c"
  have "ret ?g = 0" "infos ?g \<noteq> []" using assms(1) by (simp_all add: accepting_def)
  then obtain ai ais where g: "ret ?g = 0" "infos ?g = ai # ais" by (cases "infos ?g") auto
  obtain ts where t: "try_address e io ai (tr @ [(?c, ?g)]) = (Break fd, (tr @ [(?c, ?g)]) @ ts)"
    "Connect fd (ai_addr ai) \<in> fst ` set ts"
    using try_address_accepted[OF assms] by blast
  have "connects_to (peer_ip io) (peer_port io) fd ((?c, ?g) # ts)"
    unfolding connects_to_def using g t(2) by (intro exI[of _ ?g] exI[of _ ai]) simp
  moreover have "connectTCP e io tr = (fd, tr @ (?c, ?g) # ts)"
    using g t(1) by (simp add: connectTCP_def sys_eq)
  ultimately show ?thesis by blast
qed

lemma thread_rounds_add:
  "thread_rounds e mgr m s = Some s' \<Longrightarrow> thread_rounds e mgr (m + n) s = thread_rounds e mgr n s'"
proof (induction m arbitrary: s)
  case (Suc m)
  obtain io tr where "s = (io, tr)" by fastforce
  with Suc show ?case by (auto split: option.splits)
qed simp

lemma connects_in_three_rounds:
  assumes "accepting e fd" and "locIp io = []" and "locPort io = 0" and "ssl (tls io) = 0"
    and "peer_fd io = CLOSED" and "servant io = Waiting" and "que (peer_que io) = (CONNECT, x) # qs"
  shows "\<exists>run a b. thread_rounds e (appendNotificationNode e ep) 3 (io, tr) =
    Some (io\<lparr>peer_que := \<lparr>que = qs\<rparr>, peer_fd := fd\<rparr>,
      tr @ run @ [(Epoll_ctl_add (epoll_fd (ep_epoll ep)) fd default_events, a), (Sleep 5, b)]) \<and>
    connects_to (peer_ip io) (peer_port io) fd run"
proof -
  let ?mgr = "appendNotificationNode e ep"
  let ?io1 = "io\<lparr>peer_que := \<lparr>que = qs\<rparr>, servant := Connecting\<rparr>"
  have f: "fd \<noteq> CLOSED" using assms(1) by (simp add: accepting_def)
  obtain run where c: "connectTCP e ?io1 tr = (fd, tr @ run)"
    and d: "connects_to (peer_ip io) (peer_port io) fd run"
    using connectTCP_accepted[of e fd ?io1 tr] assms(1-3) by auto
  obtain a b where r: "connecting_round e ?mgr ?io1 tr = (?io1\<lparr>peer_fd := fd\<rparr>,
      tr @ run @ [(Epoll_ctl_add (epoll_fd (ep_epoll ep)) fd default_events, a), (Sleep 5, b)])"
    using c f assms(4,5)
    by (simp add: connecting_round_def IO_connect_def notifyManager_def appendNotificationNode_run
        sys_eq Let_def)
  have "threadFunc e ?mgr io tr = Some (?io1, tr)"
    using assms(5-7) by (simp add: threadFunc_pop[OF assms(6,7)])
  moreover have "threadFunc e ?mgr ?io1 tr = Some (?io1\<lparr>peer_fd := fd\<rparr>,
      tr @ run @ [(Epoll_ctl_add (epoll_fd (ep_epoll ep)) fd default_events, a), (Sleep 5, b)])"
    by (simp add: threadFunc_def r)
  moreover have "threadFunc e ?mgr (?io1\<lparr>peer_fd := fd\<rparr>) t = Some (io\<lparr>peer_que := \<lparr>que = qs\<rparr>, peer_fd := fd\<rparr>, t)" for t
    using f assms(6) by (cases io) (simp add: threadFunc_def connecting_round_def)
  ultimately show ?thesis using d by (simp add: numeral_3_eq_3 del: IO.update_convs)
qed

text \<open>C22: a peer asked to connect and then to send does both: a peer without local address and
  without TLS, whose thread waits in \<^verbatim>\<open>pop\<close>, has a request to connect and messages behind it in
  its queue, and the server accepts, at once or after a connect in progress. Then three
  rounds of its thread connect it to an address that the resolver gives for its server and put it under the watch of epoll, and the
  following rounds send the messages that were queued behind the request, in order and complete,
  and nothing else.\<close>

theorem connect_then_send:
  assumes "accepting e fd" and "locIp io = []" and "locPort io = 0" and "ssl (tls io) = 0"
    and "peer_fd io = CLOSED" and "servant io = Waiting"
    and "que (peer_que io) = (CONNECT, x) # map (Pair WRITE) ms"
  shows "\<exists>run a b ws. thread_rounds e (appendNotificationNode e ep) (3 + length ms) (io, tr) =
      Some (io\<lparr>peer_que := \<lparr>que = []\<rparr>, peer_fd := fd\<rparr>,
        tr @ run @ [(Epoll_ctl_add (epoll_fd (ep_epoll ep)) fd default_events, a), (Sleep 5, b)] @ ws) \<and>
    connects_to (peer_ip io) (peer_port io) fd run \<and> map fst ws = map (Write fd) ms"
proof -
  let ?io = "io\<lparr>peer_que := \<lparr>que = map (Pair WRITE) ms\<rparr>, peer_fd := fd\<rparr>"
  have "fd \<noteq> CLOSED" using assms(1) by (simp add: accepting_def)
  obtain run a b where r: "thread_rounds e (appendNotificationNode e ep) 3 (io, tr) =
    Some (?io, tr @ run @ [(Epoll_ctl_add (epoll_fd (ep_epoll ep)) fd default_events, a), (Sleep 5, b)])"
    and d: "connects_to (peer_ip io) (peer_port io) fd run"
    using connects_in_three_rounds[OF assms] by blast
  obtain ws where "thread_rounds e (appendNotificationNode e ep) (length ms)
      (?io, tr @ run @ [(Epoll_ctl_add (epoll_fd (ep_epoll ep)) fd default_events, a), (Sleep 5, b)]) =
      Some (?io\<lparr>peer_que := \<lparr>que = []\<rparr>\<rparr>,
        (tr @ run @ [(Epoll_ctl_add (epoll_fd (ep_epoll ep)) fd default_events, a), (Sleep 5, b)]) @ ws)"
    and "map fst ws = map (write_call ?io) ms"
    using sends_in_order[of ?io ms "[]"] \<open>fd \<noteq> CLOSED\<close> assms(6) by fastforce
  moreover have "write_call ?io = Write fd" using assms(4) by (simp add: write_call_def fun_eq_iff)
  ultimately show ?thesis using d
    by (intro exI[of _ run] exI[of _ a] exI[of _ b] exI[of _ ws]) (simp add: thread_rounds_add[OF r])
qed

text \<open>A server whose connections are in progress before they are complete.\<close>

definition accepting_env :: env where
  "accepting_env tr c =
     (case c of
        Getaddrinfo _ _ \<Rightarrow> (answer 0)\<lparr>infos := [demo_address]\<rparr>
      | Socket _ _ _ \<Rightarrow> answer 5
      | Connect _ _ \<Rightarrow> (answer (-1))\<lparr>errno := EINPROGRESS\<rparr>
      | Select_write _ _ \<Rightarrow> (answer 1)\<lparr>writable := True\<rparr>
      | _ \<Rightarrow> answer 0)"

lemma accepting_env_accepts: "accepting accepting_env 5"
  by (simp add: accepting_def accepting_env_def setfl_works_def CLOSED_def answer_def)

theorem connect_then_send_witness:
  "\<exists>io' run ws. thread_rounds accepting_env (appendNotificationNode accepting_env demo_end_point) 4
      (demo_peer\<lparr>peer_que := \<lparr>que = [(CONNECT, []), (WRITE, ''hi'')]\<rparr>\<rparr>, []) = Some (io', run @ ws) \<and>
    peer_fd io' = 5 \<and> map fst ws = [Write 5 ''hi'']"
proof -
  let ?io = "demo_peer\<lparr>peer_que := \<lparr>que = [(CONNECT, []), (WRITE, ''hi'')]\<rparr>\<rparr>"
  note e = accepting_env_accepts
  have io: "locIp ?io = []" "locPort ?io = 0" "ssl (tls ?io) = 0" "peer_fd ?io = CLOSED"
    "servant ?io = Waiting" "que (peer_que ?io) = (CONNECT, []) # map (Pair WRITE) [''hi'']"
    by (simp_all add: demo_peer_def fresh)
  obtain run a b ws where r: "thread_rounds accepting_env (appendNotificationNode accepting_env demo_end_point)
      (3 + length [''hi'']) (?io, []) = Some (?io\<lparr>peer_que := \<lparr>que = []\<rparr>, peer_fd := 5\<rparr>,
        [] @ run @ [(Epoll_ctl_add (epoll_fd (ep_epoll demo_end_point)) 5 default_events, a), (Sleep 5, b)] @ ws)"
    and w: "map fst ws = map (Write 5) [''hi'']"
    using connect_then_send[OF e io, of demo_end_point "[]"] by blast
  show ?thesis
    by (rule exI[of _ "?io\<lparr>peer_que := \<lparr>que = []\<rparr>, peer_fd := 5\<rparr>"],
        rule exI[of _ "run @ [(Epoll_ctl_add (epoll_fd (ep_epoll demo_end_point)) 5 default_events, a), (Sleep 5, b)]"],
        rule exI[of _ ws]) (use r w in simp)
qed

end
