(* ===== verification/Peer_Tls.thy ===== *)
theory Peer_Tls
  imports Peer_Life
begin

text \<open>
  A peer and its TLS object over the peer's whole life: when the object exists, that it is
  allocated and freed in balance, and what a failure of TLS does to the connection.
\<close>

section \<open>Balance of allocation and release\<close>

lemma cleared_tls: "cleared t \<Longrightarrow> t = new_TLS"
  by (simp add: cleared_def new_TLS_def)

lemma tls_null: "t\<lparr>ssl_ctx := 0, ssl := 0\<rparr> = new_TLS"
  by (cases t) (simp add: new_TLS_def)

lemma IO_new_tls:
  assumes "IO_new e ip port True junk tr = (Inr io, tr')"
  obtains t1 tr1 t2 tr2 where "create_context e new_TLS tr = (Inr t1, tr1)"
    and "configure_context e TLS1_2_VERSION [] t1 tr1 = (t2, tr2)"
    and "create_object e t2 tr2 = (tls io, tr')"
proof -
  obtain c tr1 where c: "create_context e new_TLS tr = (c, tr1)" by fastforce
  with assms obtain t1 where c1: "c = Inr t1" by (cases c) (auto simp: IO_new_def)
  obtain t2 tr2 where t2: "configure_context e TLS1_2_VERSION [] t1 tr1 = (t2, tr2)" by fastforce
  obtain t3 tr3 where t3: "create_object e t2 tr2 = (t3, tr3)" by fastforce
  from assms c c1 t2 t3 have "t3 = tls io" "tr3 = tr'" by (auto simp: IO_new_def IO_fields_def)
  with c c1 t2 t3 show thesis by (auto intro: that)
qed

lemma configure_context_ssl:
  "configure_context e v p t tr = (t', tr') \<Longrightarrow> ssl t = 0 \<Longrightarrow> ssl t' = 0"
  using configure_context_cases[of e v p t tr] by (auto simp: cleared_def)

lemma IO_new_moves:
  assumes "IO_new e ip port with_ssl junk tr = (Inr io, tr')"
  shows "extends (moves new_TLS (tls io)) tr tr'"
proof (cases with_ssl)
  case True
  with assms obtain t1 tr1 t2 tr2 where c: "create_context e new_TLS tr = (Inr t1, tr1)"
    and f: "configure_context e TLS1_2_VERSION [] t1 tr1 = (t2, tr2)"
    and n: "create_object e t2 tr2 = (tls io, tr')" by (auto elim: IO_new_tls)
  from create_context_moves[OF c] have "extends (moves new_TLS t1) tr tr1" "ssl t1 = 0" by auto
  with configure_context_moves[OF f] configure_context_ssl[OF f]
  have "extends (moves new_TLS t2) tr tr2" "ssl t2 = 0" by (auto intro: moves_trans)
  with create_object_moves[OF n] show ?thesis by (auto intro: moves_trans)
next
  case False
  with assms show ?thesis by (auto simp: IO_new_def IO_fields_def)
qed

lemma tcp_call_inert: "tcp_call c \<Longrightarrow> tls_inert c"
  by (cases c) auto

lemmas connectTCP_inert = emits_mono[OF connectTCP_tcp_call tcp_call_inert]

lemma IO_connect_moves:
  assumes "IO_connect e (appendNotificationNode e ep) io tr = (ok, io', tr')"
  shows "extends (moves (tls io) (tls io')) tr tr'"
proof -
  obtain fd tr1 where c: "connectTCP e io tr = (fd, tr1)" by fastforce
  let ?io1 = "io\<lparr>peer_fd := fd\<rparr>"
  obtain b t tr2 where t: "(if ssl (tls ?io1) = 0 then (True, tls ?io1, tr1)
      else tls_connect e (peer_fd ?io1) (tls ?io1) tr1) = (b, t, tr2)" by (metis prod_cases3)
  have 1: "extends (moves (tls io) (tls io)) tr tr1"
    by (rule inert_moves[OF connectTCP_inert[OF c]])
  have "extends (moves (tls io) t) tr1 tr2"
    using t by (auto split: if_splits dest: tls_connect_moves)
  with 1 have 2: "extends (moves (tls io) t) tr tr2" by (rule moves_trans)
  have m: "extends (moves t t) tr2 (notifyManager (appendNotificationNode e ep) (?io1\<lparr>tls := t\<rparr>) tr2)"
    by (rule inert_moves) (simp add: notifyManager_def appendNotificationNode_run Let_def)
  from 1 2 moves_trans[OF 2 m] assms c t show ?thesis
    by (auto simp: IO_connect_def Let_def split: if_splits)
qed

lemma IO_read_inert: "emits tls_inert tr (snd (IO_read e io tr))"
  by (auto simp: IO_read_def Let_def split: prod.splits if_splits
      dest!: sysD handle_io_failure_inert intro!: emits.add)
    (auto simp: extends_def)

definition balanced :: "IO \<times> trace \<Rightarrow> bool" where
  "balanced s \<longleftrightarrow> extends (moves new_TLS (tls (fst s))) [] (snd s)"

lemma balanced_own:
  assumes "balanced (io, tr)"
    and "threadFunc e (appendNotificationNode e ep) io tr = Some (io', tr')"
  shows "balanced (io', tr')"
proof -
  from assms(1) have i: "extends (moves new_TLS (tls io)) [] tr" by (simp add: balanced_def)
  note go = moves_trans[OF i inert_moves]
  from assms(2) show ?thesis
  proof (cases rule: threadFunc_cases)
    case (connect_it b tr1 a)
    have "extends (moves new_TLS (tls io')) [] tr1"
      using i IO_connect_moves[OF connect_it(3)] by (rule moves_trans)
    then have "extends (moves new_TLS (tls io')) [] tr'"
      unfolding connect_it(4) by (rule moves_trans[OF _ inert_moves]) simp
    then show ?thesis by (simp add: balanced_def)
  next
    case (write_it q m)
    have "emits tls_inert tr tr'" by (simp add: write_it(3) IO_write_run write_call_def)
    with write_it show ?thesis by (simp add: balanced_def go)
  next
    case (close_it q a)
    have "emits tls_inert tr tr'" by (simp add: close_it(4))
    with close_it show ?thesis by (simp add: balanced_def go)
  next
    case (read_it c q s)
    then show ?thesis using go[OF IO_read_inert] by (simp add: balanced_def)
  next
    case (read_close a)
    have "emits tls_inert tr tr'" unfolding read_close(3) by (rule emits.add[OF IO_read_inert]) simp
    with read_close(2) show ?thesis by (simp add: balanced_def go)
  qed (use i in \<open>auto simp: balanced_def\<close>)
qed

interpretation tls_life:
  invariant_system "born e b" "life_step e (appendNotificationNode e ep)" balanced for e b ep
proof unfold_locales
  fix s assume "born e b s"
  then show "balanced s" by (auto simp: born_def balanced_def dest: IO_new_moves)
next
  fix s t assume i: "balanced s" and "life_step e (appendNotificationNode e ep) s t"
  from this(2) show "balanced t"
  proof cases
    case (own io tr io' tr')
    with i show ?thesis using balanced_own by blast
  next
    case (asked ip port fd r msg io io' tr)
    with i request_frame[OF asked(3)] show ?thesis by (simp add: balanced_def)
  qed
qed

text \<open>C14: OpenSSL's objects are never freed twice and never lost while a peer lives: after any
  history of a peer, exactly the context and the object that its TLS member points to are
  alive, and nothing that was not alive has been freed.\<close>

theorem tls_objects_balanced:
  assumes "reachable (born e b) (life_step e (appendNotificationNode e ep)) (io, tr)"
  shows "tls_live ([], []) tr = Some
    (if ssl_ctx (tls io) = 0 then [] else [ssl_ctx (tls io)], if ssl (tls io) = 0 then [] else [ssl (tls io)])"
  using tls_life.inv_reachable[OF assms]
  by (auto simp: balanced_def moves_def extends_def tls_own_def new_TLS_def)

definition tls_env :: env where
  "tls_env tr c = (case c of SSL_new ctx \<Rightarrow> answer (if ctx = 0 then 0 else 2) | _ \<Rightarrow> answer 1)"

lemma tls_peer:
  "\<exists>tr. IO_new tls_env [] 0 True 0 [] = (Inr (IO_fields [] 0 0 \<lparr>ssl_ctx = 1, ssl = 2\<rparr>), tr) \<and> tr \<noteq> []"
  by (simp add: IO_new_def create_context_def configure_context_def load_trust_def create_object_def
      allowed_version_def sys_eq tls_env_def new_TLS_def Let_def)

theorem tls_objects_balanced_witness:
  "\<exists>io tr. reachable (born tls_env True) (life_step tls_env (appendNotificationNode tls_env demo_end_point)) (io, tr) \<and>
    tr \<noteq> [] \<and> tls_live ([], []) tr = Some ([1], [2])"
proof -
  obtain tr where t: "IO_new tls_env [] 0 True 0 [] = (Inr (IO_fields [] 0 0 \<lparr>ssl_ctx = 1, ssl = 2\<rparr>), tr)"
    "tr \<noteq> []" using tls_peer by blast
  then have "reachable (born tls_env True) (life_step tls_env (appendNotificationNode tls_env demo_end_point))
      (IO_fields [] 0 0 \<lparr>ssl_ctx = 1, ssl = 2\<rparr>, tr)"
    by (intro reachable_init) (auto simp: born_def)
  from this tls_objects_balanced[OF this] t(2) show ?thesis by (auto simp: IO_fields_def)
qed

section \<open>What a TLS object stands for\<close>

text \<open>\<^verbatim>\<open>SSL_new\<close> on the null pointer gives the null pointer, as OpenSSL documents.\<close>

definition no_null_context :: "env \<Rightarrow> bool" where
  "no_null_context e \<longleftrightarrow> (\<forall>tr. ret (e tr (SSL_new 0)) = 0)"

lemma load_trust_default:
  assumes "load_trust e [] t tr = (t', tr')" and "\<not> cleared t'"
  shows "\<exists>p. ret p \<noteq> 0 \<and> (\<exists>tr0. p = e tr0 (SSL_CTX_set_default_verify_paths (ssl_ctx t))) \<and>
    tr' = tr @ [(SSL_CTX_set_default_verify_paths (ssl_ctx t), p)] \<and> t' = t"
proof -
  obtain p tr1 where p: "sys e (SSL_CTX_set_default_verify_paths (ssl_ctx t)) tr = (p, tr1)" by fastforce
  show ?thesis
  proof (cases "ret p = 0")
    case True
    with assms p have "(t', tr') = keep_clear e t tr1" by (simp add: load_trust_def)
    then have "cleared t'" using cleared_keep_clear[of e t tr1] by (metis fst_conv)
    with assms(2) show ?thesis by simp
  next
    case False
    with assms p sysD[OF p] show ?thesis by (auto simp: load_trust_def sys_eq)
  qed
qed

lemma configure_context_default:
  assumes "configure_context e v [] t tr = (t', tr')" and "\<not> cleared t'"
  shows "\<exists>x p m. ret p \<noteq> 0 \<and> (\<exists>tr0. p = e tr0 (SSL_CTX_set_default_verify_paths (ssl_ctx t))) \<and>
    ret m \<noteq> 0 \<and> t' = t \<and>
    tr' = tr @ [(SSL_CTX_set_verify_peer (ssl_ctx t), x),
      (SSL_CTX_set_default_verify_paths (ssl_ctx t), p),
      (SSL_CTX_set_min_proto_version (ssl_ctx t) (allowed_version v), m)]"
proof -
  obtain b tr1 where b: "sys e (SSL_CTX_set_verify_peer (ssl_ctx t)) tr = (b, tr1)" by fastforce
  obtain t2 tr2 where l: "load_trust e [] t tr1 = (t2, tr2)" by fastforce
  obtain m tr3 where m: "sys e (SSL_CTX_set_min_proto_version (ssl_ctx t2) (allowed_version v)) tr2
      = (m, tr3)" by fastforce
  have "ret m \<noteq> 0"
  proof
    assume "ret m = 0"
    with assms(1) b l m have "(t', tr') = keep_clear e t2 tr3" by (simp add: configure_context_def)
    then have "cleared t'" using cleared_keep_clear[of e t2 tr3] by (metis fst_conv)
    with assms(2) show False by simp
  qed
  with assms(1) b l m have t': "t' = t2" "tr' = tr3" by (simp_all add: configure_context_def)
  with load_trust_default[OF l] assms(2) \<open>ret m \<noteq> 0\<close> sysD[OF b] sysD[OF m] show ?thesis by auto
qed

lemma create_object_live:
  assumes "create_object e t tr = (t', tr')" and "ssl t' \<noteq> 0"
  shows "\<exists>a. ret a = ssl t' \<and> t' = t\<lparr>ssl := ret a\<rparr> \<and> tr' = tr @ [(SSL_new (ssl_ctx t), a)] \<and>
    a = e tr (SSL_new (ssl_ctx t))"
  using assms by (auto simp: create_object_def sys_eq Let_def keep_clear_def split: if_splits)

lemma no_null_object:
  "no_null_context e \<Longrightarrow> create_object e t tr = (t', tr') \<Longrightarrow> ssl_ctx t = 0 \<Longrightarrow> ssl t' = 0"
  by (auto simp: create_object_def sys_eq Let_def keep_clear_def no_null_context_def split: if_splits)

text \<open>C33: a peer only has a TLS object when its whole configuration succeeded: the context was
  made, verification of the server was switched on, the default trust store was found, the
  minimum version was set to TLS 1.2, and the object was made from that context, in this order
  and with no other call in between.\<close>

theorem tls_object_is_configured:
  assumes "no_null_context e" and "IO_new e ip port True junk tr = (Inr io, tr')"
    and "ssl (tls io) \<noteq> 0"
  shows "\<exists>c a x p m s. c \<noteq> 0 \<and> ret p \<noteq> 0 \<and> ret m \<noteq> 0 \<and> ret a = c \<and> ret s = ssl (tls io) \<and>
    ssl_ctx (tls io) = c \<and>
    tr' = tr @ [(SSL_CTX_new, a), (SSL_CTX_set_verify_peer c, x),
      (SSL_CTX_set_default_verify_paths c, p), (SSL_CTX_set_min_proto_version c TLS1_2_VERSION, m),
      (SSL_new c, s)]"
proof -
  obtain t1 tr1 t2 tr2 where c: "create_context e new_TLS tr = (Inr t1, tr1)"
    and f: "configure_context e TLS1_2_VERSION [] t1 tr1 = (t2, tr2)"
    and n: "create_object e t2 tr2 = (tls io, tr')" using IO_new_tls[OF assms(2)] .
  from c obtain a where a: "ret a \<noteq> 0" "tr1 = tr @ [(SSL_CTX_new, a)]" "t1 = \<lparr>ssl_ctx = ret a, ssl = 0\<rparr>"
    by (auto simp: create_context_def new_TLS_def sys_eq Let_def split: if_splits)
  from no_null_object[OF assms(1) n] assms(3) have "\<not> cleared t2" by (auto simp: cleared_def)
  from configure_context_default[OF f this] obtain x p m where
    p: "ret p \<noteq> 0" "ret m \<noteq> 0" "t2 = t1" "tr2 = tr1 @ [(SSL_CTX_set_verify_peer (ssl_ctx t1), x),
      (SSL_CTX_set_default_verify_paths (ssl_ctx t1), p),
      (SSL_CTX_set_min_proto_version (ssl_ctx t1) (allowed_version TLS1_2_VERSION), m)]" by blast
  from create_object_live[OF n assms(3)] obtain s where
    s: "ret s = ssl (tls io)" "tls io = t2\<lparr>ssl := ret s\<rparr>" "tr' = tr2 @ [(SSL_new (ssl_ctx t2), s)]" by blast
  have "allowed_version TLS1_2_VERSION = TLS1_2_VERSION" by (simp add: allowed_version_def)
  moreover have "ssl_ctx (tls io) = ret a" using s(2) p(3) a(3) by (metis TLS.select_convs(1) TLS.surjective TLS.update_convs(2))
  ultimately show ?thesis using a p s(1,3)
    by (intro exI[of _ "ret a"] exI[of _ a] exI[of _ x] exI[of _ p] exI[of _ m] exI[of _ s]) simp
qed

theorem tls_object_is_configured_witness:
  "no_null_context tls_env \<and> (\<exists>io tr. IO_new tls_env [] 0 True 0 [] = (Inr io, tr) \<and> ssl (tls io) \<noteq> 0 \<and>
    (\<exists>a x p m s. tr = [(SSL_CTX_new, a), (SSL_CTX_set_verify_peer (ssl_ctx (tls io)), x),
      (SSL_CTX_set_default_verify_paths (ssl_ctx (tls io)), p),
      (SSL_CTX_set_min_proto_version (ssl_ctx (tls io)) TLS1_2_VERSION, m), (SSL_new (ssl_ctx (tls io)), s)]))"
proof -
  have e: "no_null_context tls_env" by (simp add: no_null_context_def tls_env_def)
  obtain tr where t: "IO_new tls_env [] 0 True 0 [] = (Inr (IO_fields [] 0 0 \<lparr>ssl_ctx = 1, ssl = 2\<rparr>), tr)"
    using tls_peer by blast
  from tls_object_is_configured[OF e t] e t show ?thesis by (auto simp: IO_fields_def)
qed

section \<open>Failures of TLS\<close>

text \<open>A peer that was asked to use TLS falls back to plain TCP without an error when the trust
  store cannot be loaded: the constructor returns a peer without TLS object, and whatever that
  peer sends, it sends in clear.\<close>

theorem missing_trust_store_means_plaintext:
  assumes "no_null_context e" and "\<forall>tr c. ret (e tr (SSL_CTX_set_default_verify_paths c)) = 0"
    and "IO_new e ip port True junk tr = (Inr io, tr')"
  shows "tls io = new_TLS \<and> (\<forall>m. write_call io m = Write (peer_fd io) m)"
proof -
  obtain t1 tr1 t2 tr2 where c: "create_context e new_TLS tr = (Inr t1, tr1)"
    and f: "configure_context e TLS1_2_VERSION [] t1 tr1 = (t2, tr2)"
    and n: "create_object e t2 tr2 = (tls io, tr')" using IO_new_tls[OF assms(3)] .
  have "cleared t2" using configure_context_default[OF f] assms(2) by auto
  then have z: "ssl (tls io) = 0" using no_null_object[OF assms(1) n] by (simp add: cleared_def)
  have "ret (e tr2 (SSL_new (ssl_ctx t2))) = 0"
    using assms(1) \<open>cleared t2\<close> by (simp add: no_null_context_def cleared_def)
  then have "tls io = new_TLS"
    using n by (auto simp: create_object_def sys_eq Let_def keep_clear_def tls_null)
  with z show ?thesis by (simp add: write_call_def)
qed

definition no_trust_env :: env where
  "no_trust_env tr c =
     (case c of SSL_CTX_new \<Rightarrow> answer 1 | SSL_CTX_set_default_verify_paths _ \<Rightarrow> answer 0
      | SSL_new ctx \<Rightarrow> answer (if ctx = 0 then 0 else 2) | _ \<Rightarrow> answer 1)"

theorem missing_trust_store_means_plaintext_witness:
  "\<exists>io tr. IO_new no_trust_env [] 0 True 0 [] = (Inr io, tr) \<and> tls io = new_TLS \<and>
    write_call io ''secret'' = Write (peer_fd io) ''secret''"
proof -
  have e: "no_null_context no_trust_env" by (simp add: no_null_context_def no_trust_env_def)
  have d: "\<forall>tr c. ret (no_trust_env tr (SSL_CTX_set_default_verify_paths c)) = 0"
    by (simp add: no_trust_env_def)
  have "\<exists>io tr. IO_new no_trust_env [] 0 True 0 [] = (Inr io, tr)"
    by (simp add: IO_new_def create_context_def sys_eq no_trust_env_def split_beta)
  with missing_trust_store_means_plaintext[OF e d] show ?thesis by blast
qed

text \<open>Calls that close a descriptor or put one under the watch of epoll.\<close>

fun closes_or_watches :: "sysc \<Rightarrow> bool" where
  "closes_or_watches (Close _) = True"
| "closes_or_watches (Epoll_ctl_add _ _ _) = True"
| "closes_or_watches _ = False"

lemma tls_call_keeps: "tls_call c \<Longrightarrow> \<not> closes_or_watches c"
  by (cases c) auto

interpretation handshake_keeps: handshake_calls "\<lambda>c. \<not> closes_or_watches c" fd for fd
  by unfold_locales (auto intro: emits_mono[OF keep_clear_tls_call tls_call_keeps]
      emits_mono[OF handle_io_failure_tls_call tls_call_keeps])

text \<open>C34: when the TLS handshake fails on an established connection, the connection stays open and
  the peer goes on without encryption: \<^verbatim>\<open>connect\<close> reports failure, but it makes no call to close the
  descriptor or to put it under the watch of epoll (so nothing of what arrives is ever read), the
  descriptor is kept and the TLS object is gone; the connecting loop ends at its next test without
  another attempt, and every later message is written to this descriptor in clear.\<close>

theorem failed_handshake_means_plaintext:
  assumes "connectTCP e io tr = (fd, tr1)" and "fd \<noteq> CLOSED" and "ssl (tls io) \<noteq> 0"
    and "tls_connect e fd (tls io) tr1 = (False, t, tr2)"
  shows "\<exists>io'. IO_connect e mgr io tr = (False, io', tr2) \<and> peer_fd io' = fd \<and> ssl (tls io') = 0 \<and>
    emits (\<lambda>c. \<not> closes_or_watches c) tr1 tr2 \<and>
    connecting_round e mgr io' tr2 = (io'\<lparr>servant := Waiting\<rparr>, tr2) \<and>
    (\<forall>m tr3. snd (IO_write e io' m tr3) = tr3 @ [(Write fd m, e tr3 (Write fd m))])"
proof -
  let ?io' = "io\<lparr>peer_fd := fd, tls := t\<rparr>"
  have "cleared t" using tls_connect_false[OF assms(4)] .
  then have z: "ssl (tls ?io') = 0" by (simp add: cleared_def)
  have "IO_connect e mgr io tr = (False, ?io', tr2)"
    using assms by (simp add: IO_connect_def Let_def)
  moreover have "emits (\<lambda>c. \<not> closes_or_watches c) tr1 tr2"
    by (rule handshake_keeps.tls_connect_emits[OF assms(4)])
  ultimately show ?thesis using z assms(2)
    by (intro exI[of _ ?io']) (simp add: IO_write_run write_call_def connecting_round_def)
qed

definition bad_cert_env :: env where
  "bad_cert_env tr c =
     (case c of
        Getaddrinfo _ _ \<Rightarrow> (answer 0)\<lparr>infos := [demo_address]\<rparr>
      | Socket _ _ _ \<Rightarrow> answer 5
      | SSL_set_fd _ _ \<Rightarrow> answer 1
      | SSL_connect _ \<Rightarrow> answer (-1)
      | SSL_get_error _ _ \<Rightarrow> answer SSL_ERROR_SSL
      | SSL_get_verify_result _ \<Rightarrow> answer 20
      | _ \<Rightarrow> answer 0)"

lemma bad_cert_handshake:
  "\<exists>tr1 tr2. connectTCP bad_cert_env (demo_peer\<lparr>tls := \<lparr>ssl_ctx = 1, ssl = 2\<rparr>\<rparr>) [] = (5, tr1) \<and>
    tls_connect bad_cert_env 5 \<lparr>ssl_ctx = 1, ssl = 2\<rparr> tr1 = (False, new_TLS, tr2)"
proof -
  have "\<exists>tr1. connectTCP bad_cert_env (demo_peer\<lparr>tls := \<lparr>ssl_ctx = 1, ssl = 2\<rparr>\<rparr>) [] = (5, tr1)"
    by (simp add: connectTCP_def try_address_def use_socket_def bind_local_def start_connect_def
        setNonBlock_def sys_eq bad_cert_env_def demo_peer_def demo_address_def fresh Let_def)
  moreover have "\<exists>tr2. tls_connect bad_cert_env 5 \<lparr>ssl_ctx = 1, ssl = 2\<rparr> tr1 = (False, new_TLS, tr2)" for tr1
    by (simp add: tls_connect_def handle_io_failure_def keep_clear_def sys_eq bad_cert_env_def
        new_TLS_def Let_def)
  ultimately show ?thesis by blast
qed

theorem failed_handshake_means_plaintext_witness:
  "\<exists>io' tr' a. IO_connect bad_cert_env demo_manager (demo_peer\<lparr>tls := \<lparr>ssl_ctx = 1, ssl = 2\<rparr>\<rparr>) [] =
      (False, io', tr') \<and> peer_fd io' = 5 \<and> snd (IO_write bad_cert_env io' ''secret'' tr') = tr' @ [(Write 5 ''secret'', a)]"
proof -
  let ?io = "demo_peer\<lparr>tls := \<lparr>ssl_ctx = 1, ssl = 2\<rparr>\<rparr>"
  obtain tr1 tr2 where c: "connectTCP bad_cert_env ?io [] = (5, tr1)"
    and t: "tls_connect bad_cert_env 5 (tls ?io) tr1 = (False, new_TLS, tr2)" using bad_cert_handshake by auto
  have "(5::int) \<noteq> CLOSED" "ssl (tls ?io) \<noteq> 0" by (simp_all add: CLOSED_def)
  from failed_handshake_means_plaintext[OF c this t, of demo_manager] show ?thesis by blast
qed

text \<open>When the descriptor cannot be given to OpenSSL, the object is freed and the handshake is
  then tried on the null pointer.\<close>

theorem set_fd_failure_connects_null:
  assumes "ret (e tr (SSL_set_fd (ssl t) fd)) = 0"
  shows "\<exists>run. snd (snd (tls_connect e fd t tr)) = tr @ run \<and>
    SSL_connect 0 \<in> fst ` set run \<and> (ssl t \<noteq> 0 \<longrightarrow> SSL_free (ssl t) \<in> fst ` set run)"
  using assms
  by (auto simp: tls_connect_def keep_clear_def handle_io_failure_def sys_eq Let_def)

theorem set_fd_failure_connects_null_witness:
  "\<exists>run. snd (snd (tls_connect quiet_env 5 \<lparr>ssl_ctx = 1, ssl = 2\<rparr> [])) = run \<and>
    SSL_connect 0 \<in> fst ` set run \<and> SSL_free 2 \<in> fst ` set run"
  using set_fd_failure_connects_null[of quiet_env "[]" "\<lparr>ssl_ctx = 1, ssl = 2\<rparr>" 5]
  by (simp add: quiet_env_def)

end
