(* ===== verification/Client_System.thy ===== *)
theory Client_System
  imports Client_Main Peer_Tls
begin

text \<open>
  The running program: all its threads on their shared state. The thread that interprets request
  lines, the epoll waiter, the timer, the peers' own threads and the message handler take turns;
  a step is one round of one of them, as the components define it. A step can end the process.
\<close>

section \<open>The program as a step relation\<close>

record client =
  cl_mq :: int
  cl_end_point :: EndPoint
  cl_queue :: "string ThreadSafeQueue"
  cl_trace :: trace

text \<open>
  \<open>Inl\<close> is the end of the process, \<open>Inr\<close> a running one. First the threads that the end point
  started, then the message handler, which the system starts.
\<close>

inductive thread_step :: "env \<Rightarrow> client outcome \<Rightarrow> client outcome \<Rightarrow> bool" for e where
  stdin: "pop (cl_queue c) = Some (arg, q) \<Longrightarrow>
    interpretRequest e junk arg (cl_end_point c) (cl_trace c) = (r, tr) \<Longrightarrow>
    thread_step e (Inr c)
      (map_sum id (\<lambda>ep. c\<lparr>cl_end_point := ep, cl_queue := q, cl_trace := tr\<rparr>) r)"
| epoll: "waiter (ep_epoll (cl_end_point c)) \<Longrightarrow>
    waiterFunction e (ep_epoll (cl_end_point c)) (cl_queue c) (cl_trace c) = (r, tr) \<Longrightarrow>
    thread_step e (Inr c) (map_sum id (\<lambda>q. c\<lparr>cl_queue := q, cl_trace := tr\<rparr>) r)"
| timer: "thread_step e (Inr c) (map_sum id (\<lambda>_. c) (timer_pass (peers (cl_end_point c))))"
| peer: "peers (cl_end_point c) = ps @ p # qs \<Longrightarrow>
    threadFunc e (appendNotificationNode e (cl_end_point c)) p (cl_trace c) = Some (p', tr) \<Longrightarrow>
    thread_step e (Inr c)
      (Inr (c\<lparr>cl_end_point := (cl_end_point c)\<lparr>peers := ps @ p' # qs\<rparr>, cl_trace := tr\<rparr>))"

inductive client_step :: "env \<Rightarrow> client outcome \<Rightarrow> client outcome \<Rightarrow> bool" for e where
  thread: "thread_step e s t \<Longrightarrow> client_step e s t"
| message: "new_msg_queue e (cl_mq c) (cl_queue c) (cl_trace c) = (r, tr) \<Longrightarrow>
    client_step e (Inr c) (map_sum id (\<lambda>q. c\<lparr>cl_queue := q, cl_trace := tr\<rparr>) r)"

definition client_init :: "env \<Rightarrow> client outcome \<Rightarrow> bool" where
  "client_init e s \<longleftrightarrow>
     (\<exists>args opts junk junk' mqdes ep tr. main e args opts junk junk' [] = Some (Inr (mqdes, ep), tr) \<and>
        s = Inr \<lparr>cl_mq = mqdes, cl_end_point = ep, cl_queue = new_queue, cl_trace = tr\<rparr>)"

section \<open>The invariant\<close>

text \<open>
  A peer without remote address has not been used; a peer with one has a port too; no peer has a
  TLS object. A peer that can still be given an address stands behind all that have one, and
  two peers never have the same address.
\<close>

definition peer_ok :: "IO \<Rightarrow> bool" where
  "peer_ok p \<longleftrightarrow> ssl (tls p) = 0 \<and> (peer_ip p = [] \<longrightarrow> idle p) \<and> (peer_ip p \<noteq> [] \<longrightarrow> peer_port p \<noteq> 0)"

definition address :: "IO \<Rightarrow> string \<times> 16 word" where
  "address p = (peer_ip p, peer_port p)"

definition apart :: "IO \<Rightarrow> IO \<Rightarrow> bool" where
  "apart p q \<longleftrightarrow> (peer_ip q \<noteq> [] \<longrightarrow> address p \<noteq> ([], 0) \<and> address p \<noteq> address q)"

definition peers_ok :: "IO list \<Rightarrow> bool" where
  "peers_ok ps \<longleftrightarrow> ps \<noteq> [] \<and> list_all peer_ok ps \<and> sorted_wrt apart ps"

definition known_stops :: "stop set" where
  "known_stops = {Exit 1, Uncaught ''Function not implemented'',
     Uncaught ''missing ip in arguments'', Uncaught ''missing file descriptor number'',
     Undefined ''octet[idx] out of range'', Undefined ''write through a null pointer'',
     Undefined ''buf[rcv] out of range''}"

definition client_inv :: "client outcome \<Rightarrow> bool" where
  "client_inv s \<longleftrightarrow> (case s of Inl x \<Rightarrow> x \<in> known_stops | Inr c \<Rightarrow> peers_ok (peers (cl_end_point c)))"

lemma peers_ok_replace:
  assumes "peers_ok (ps @ p # qs)" and "address p' = address p" and "peer_ok p'"
  shows "peers_ok (ps @ p' # qs)"
  using assms by (auto simp: peers_ok_def sorted_wrt_append apart_def address_def)

lemma peers_ok_new:
  "peers_ok ps \<Longrightarrow> peers_ok (ps @ [IO_fields ip port junk new_TLS])"
  by (simp add: peers_ok_def sorted_wrt_append apart_def peer_ok_def idle_def IO_fields_def
      new_TLS_def new_queue_def)

lemma peers_ok_first: "peers_ok [IO_fields ip port junk new_TLS]"
  by (simp add: peers_ok_def peer_ok_def idle_def fresh)

section \<open>Every step keeps it\<close>

lemma IO_connect_plain:
  "IO_connect e mgr io tr = (ok, io', tr') \<Longrightarrow> ssl (tls io) = 0 \<Longrightarrow> tls io' = tls io"
  by (auto simp: IO_connect_def Let_def split: prod.splits if_splits)

lemma threadFunc_peer_ok:
  assumes "peer_ok p" and "threadFunc e mgr p tr = Some (p', tr')"
  shows "peer_ok p' \<and> address p' = address p"
proof -
  have ip: "peer_ip p \<noteq> []"
  proof
    assume "peer_ip p = []"
    with assms(1) have "servant p = Waiting" "que (peer_que p) = []" by (auto simp: peer_ok_def idle_def)
    with assms(2) show False by (simp add: threadFunc_def serve_def pop_def)
  qed
  from assms(2) show ?thesis
  proof (cases rule: threadFunc_cases)
    case (connect_it b tr1 a)
    from assms(1) have "ssl (tls p) = 0" by (simp add: peer_ok_def)
    from IO_connect_plain[OF connect_it(3) this] IO_connect_frame[OF connect_it(3)]
    have "p' = p\<lparr>peer_fd := peer_fd p', tls := tls p\<rparr>" by simp
    then have "peer_ip p' = peer_ip p \<and> peer_port p' = peer_port p \<and> tls p' = tls p"
      by (metis IO.select_convs(3) IO.simps(3) IO.surjective IO.update_convs(3)
          IPeer.select_convs(1,2) IPeer.surjective IPeer.update_convs(3))
    with assms(1) ip show ?thesis by (simp add: peer_ok_def address_def)
  qed (use assms(1) ip in \<open>simp_all add: peer_ok_def address_def\<close>)
qed

lemma matches_unused:
  "request_matches ip port fd p \<Longrightarrow> idle p \<Longrightarrow> peer_ip p = [] \<Longrightarrow>
    fd = CLOSED \<and> ip \<noteq> [] \<and> port \<noteq> 0 \<and> peer_port p = 0"
  by (auto simp: request_matches_def idle_def)

lemma peers_ok_request:
  assumes ok: "peers_ok (ps @ p # qs)" and first: "\<forall>q \<in> set ps. \<not> takes st q" and t: "takes st p"
  shows "peers_ok (ps @ (assign_master (arg_ip st) (arg_port st) p)
      \<lparr>peer_que := push (notification st, arg_msg st) (peer_que p)\<rparr> # qs)" (is "peers_ok (ps @ ?p # qs)")
proof (cases "peer_ip p = []")
  case False
  then have "address ?p = address p" "tls ?p = tls p" "peer_ip ?p = peer_ip p" "peer_port ?p = peer_port p"
    by (simp_all add: assign_master_def address_def)
  moreover have "peer_ok p" using ok by (simp add: peers_ok_def)
  ultimately show ?thesis using ok False by (intro peers_ok_replace[of ps p qs ?p]) (auto simp: peer_ok_def)
next
  case True
  have p: "peer_ok p" using ok by (simp add: peers_ok_def)
  with True have i: "idle p" by (simp add: peer_ok_def)
  note m = matches_unused[OF t i True]
  have a: "address ?p = (arg_ip st, arg_port st)" "peer_ip ?p = arg_ip st" "tls ?p = tls p"
    using m True by (simp_all add: assign_master_def address_def)
  have "peer_ok ?p" using m p a by (simp add: peer_ok_def assign_master_def True)
  moreover have "apart ?p r" if "r \<in> set qs" for r
    using ok that m True by (auto simp: peers_ok_def sorted_wrt_append apart_def address_def)
  moreover have "apart q ?p" if q: "q \<in> set ps" for q
  proof -
    have qk: "peer_ok q" using ok q by (auto simp: peers_ok_def list_all_iff)
    have n: "\<not> takes st q" using first q by blast
    have "address q \<noteq> ([], 0)" using qk n m by (auto simp: peer_ok_def idle_def address_def request_matches_def)
    moreover have "address q \<noteq> (arg_ip st, arg_port st)" using n m by (auto simp: address_def request_matches_def)
    ultimately show ?thesis using a(1) by (simp add: apart_def)
  qed
  ultimately show ?thesis using ok by (simp add: peers_ok_def sorted_wrt_append)
qed

lemma dispatch_peers_ok:
  assumes "peers_ok (peers ep)" and "dispatch e junk st ep tr = (r, tr')"
  shows "\<exists>ep'. r = Inr ep' \<and> peers_ok (peers ep')"
proof (cases "\<exists>p \<in> set (peers ep). takes st p")
  case True
  from split_list_first_prop[OF this] obtain ps p qs
    where s: "peers ep = ps @ p # qs" "\<forall>q \<in> set ps. \<not> takes st q" "takes st p" by blast
  from dispatch_taken[OF s, of e junk tr] peers_ok_request[of ps p qs st] s assms show ?thesis by auto
next
  case False
  with assms dispatch_none[of ep st e junk tr] peers_ok_new show ?thesis by auto
qed

lemma validateAddrTCP_stop:
  "validateAddrTCP a = Inl u \<Longrightarrow> u = Undefined ''octet[idx] out of range''"
  by (auto simp: validateAddrTCP_def Let_def check_octets_Undefined split: if_splits sum.splits)

lemma interpret_words_stop: "interpret_words ws st = Inl x \<Longrightarrow> x \<in> known_stops"
proof (induction ws st rule: interpret_words.induct)
  case (2 w ws st)
  show ?case
  proof (cases "w = ''-i''")
    case True
    show ?thesis
    proof (cases ws)
      case Nil
      with 2(7) True show ?thesis by (auto simp: known_stops_def)
    next
      case (Cons a us)
      with 2(1)[OF True Cons] 2(7) True show ?thesis
        by (cases "validateAddrTCP a") (auto simp: known_stops_def dest: validateAddrTCP_stop)
    qed
  next
    case i: False
    show ?thesis
    proof (cases "w = ''-f''")
      case True
      show ?thesis
      proof (cases ws)
        case Nil
        with 2(7) i True show ?thesis by (auto simp: known_stops_def)
      next
        case (Cons a us)
        with 2(2)[OF i True Cons] 2(7) i True show ?thesis by simp
      qed
    next
      case False
      with i 2(3-7) show ?thesis by (cases "opt st = ''-m''") (auto split: if_splits)
    qed
  qed
qed simp

lemma interpretRequest_peers_ok:
  assumes "peers_ok (peers ep)" and "interpretRequest e junk arg ep tr = (r, tr')"
  shows "case r of Inl x \<Rightarrow> x \<in> known_stops | Inr ep' \<Rightarrow> peers_ok (peers ep')"
proof (cases "interpret_stream arg no_arguments")
  case (Inl x)
  with assms(2) show ?thesis
    by (auto simp: interpretRequest_def interpret_stream_line intro: interpret_words_stop)
next
  case (Inr o1)
  show ?thesis
  proof (cases o1)
    case None
    with Inr assms show ?thesis by (auto simp: interpretRequest_def)
  next
    case (Some st)
    with Inr assms(2) have "dispatch e junk st ep tr = (r, tr')" by (simp add: interpretRequest_def)
    from dispatch_peers_ok[OF assms(1) this] show ?thesis by auto
  qed
qed

lemma waiterFunction_stop: "waiterFunction e ep q tr = (Inl x, tr') \<Longrightarrow> x = Exit 1"
  by (auto simp: waiterFunction_def handle_error_def Let_def split: prod.splits if_splits)

lemma new_msg_queue_stop: "new_msg_queue e m q tr = (Inl x, tr') \<Longrightarrow> x \<in> known_stops"
  by (auto simp: new_msg_queue_def known_stops_def Let_def split: prod.splits if_splits)

lemma timer_pass_eq:
  "ps \<noteq> [] \<Longrightarrow> timer_pass ps = Inl (Uncaught ''Function not implemented'')"
  by (cases ps) (simp_all add: timerCallback_def)

lemma main_end_point:
  assumes "main e args opts junk junk' tr = Some (Inr (mqdes, ep), tr')"
  shows "peers ep = [IO_fields (opt_ip (read_options junk opts)) (opt_port (read_options junk opts)) junk' new_TLS]"
  using assms by (auto simp: main_def EndPoint_new_peers Let_def split: prod.splits sum.splits option.splits if_splits)

lemma thread_step_inv:
  assumes "client_inv s" and "thread_step e s t"
  shows "client_inv t"
  using assms(2)
proof cases
  case (stdin c arg q junk r tr)
  with assms(1) interpretRequest_peers_ok[OF _ stdin(4)] show ?thesis
    by (cases r) (auto simp: client_inv_def)
next
  case (epoll c r tr)
  with assms(1) show ?thesis
    by (cases r) (auto simp: client_inv_def known_stops_def dest: waiterFunction_stop)
next
  case (timer c)
  with assms(1) show ?thesis
    by (simp add: client_inv_def peers_ok_def timer_pass_eq known_stops_def)
next
  case (peer c ps p qs p' tr)
  from assms(1) peer(1,3) have ok: "peers_ok (ps @ p # qs)" by (simp add: client_inv_def)
  then have "peer_ok p" by (simp add: peers_ok_def)
  from threadFunc_peer_ok[OF this peer(4)] peers_ok_replace[OF ok] peer(2) show ?thesis
    by (simp add: client_inv_def)
qed

lemma client_step_inv:
  assumes "client_inv s" and "client_step e s t"
  shows "client_inv t"
  using assms(2)
proof cases
  case thread
  with assms(1) show ?thesis by (rule thread_step_inv)
next
  case (message c r tr)
  with assms(1) show ?thesis by (cases r) (auto simp: client_inv_def dest: new_msg_queue_stop)
qed

lemma client_init_inv: "client_init e s \<Longrightarrow> client_inv s"
  unfolding client_init_def client_inv_def by (auto simp: peers_ok_first dest!: main_end_point)

interpretation client_system: invariant_system "client_init e" "client_step e" client_inv for e
  by unfold_locales (auto intro: client_init_inv client_step_inv)

lemma reachable_peers_ok:
  "reachable (client_init e) (client_step e) (Inr c) \<Longrightarrow> peers_ok (peers (cl_end_point c))"
  using client_system.inv_reachable[of e "Inr c"] by (simp add: client_inv_def)

lemma apart_distinct:
  "sorted_wrt apart ps \<Longrightarrow> distinct (map address (filter (\<lambda>p. peer_ip p \<noteq> []) ps))"
  by (induction ps) (auto simp: apart_def)

section \<open>A start for the witnesses\<close>

definition first_env :: env where
  "first_env tr c =
     (case c of
        Open_lock_file \<Rightarrow> answer 4
      | Mq_open _ \<Rightarrow> answer 6
      | Mq_getattr_msgsize _ \<Rightarrow> (answer 0)\<lparr>optval := 8192\<rparr>
      | Malloc _ \<Rightarrow> answer 1
      | Mq_receive _ _ \<Rightarrow> answer (-1)
      | Epoll_create1 \<Rightarrow> answer 3
      | _ \<Rightarrow> answer 0)"

lemma first_drain: "drain first_env q n tr = Some (tr @ [(Mq_receive q n, answer (-1))])"
  by (subst drain.simps) (simp add: sys_eq first_env_def)

lemma first_main:
  "\<exists>tr. main first_env [] [] 0 0 [] = Some (Inr (6, \<lparr>ep_epoll = \<lparr>epoll_fd = 3, waiter = True\<rparr>,
     peers = [IO_fields [] 0 0 new_TLS]\<rparr>), tr)"
  by (simp add: main_def ProcessInstance_new_def open_queue_def sys_eq first_env_def first_drain
      EndPoint_new_peers Epoll_new_def read_options_def Let_def)

definition first_client :: "trace \<Rightarrow> client" where
  "first_client tr = \<lparr>cl_mq = 6, cl_end_point = \<lparr>ep_epoll = \<lparr>epoll_fd = 3, waiter = True\<rparr>,
     peers = [IO_fields [] 0 0 new_TLS]\<rparr>, cl_queue = new_queue, cl_trace = tr\<rparr>"

lemma first_reachable:
  "\<exists>tr. reachable (client_init first_env) (client_step first_env) (Inr (first_client tr))"
proof -
  obtain tr where "main first_env [] [] 0 0 [] = Some (Inr (6, \<lparr>ep_epoll = \<lparr>epoll_fd = 3, waiter = True\<rparr>,
     peers = [IO_fields [] 0 0 new_TLS]\<rparr>), tr)" using first_main by blast
  then have "client_init first_env (Inr (first_client tr))"
    by (auto simp: client_init_def first_client_def)
  then show ?thesis by (blast intro: reachable_init)
qed

section \<open>The properties of the program\<close>

text \<open>C6: only one peer has the same address: whatever lines, events and messages arrive and
  however the threads interleave, no two peers of the running program were given the same
  remote address, as the comment at the search for a peer claims.\<close>

theorem one_peer_per_address:
  assumes "reachable (client_init e) (client_step e) (Inr c)"
  shows "distinct (map address (filter (\<lambda>p. peer_ip p \<noteq> []) (peers (cl_end_point c))))"
  using reachable_peers_ok[OF assms] by (auto simp: peers_ok_def intro: apart_distinct)

theorem one_peer_per_address_witness:
  "\<exists>tr. reachable (client_init first_env) (client_step first_env) (Inr (first_client tr)) \<and>
    distinct (map address (filter (\<lambda>p. peer_ip p \<noteq> []) (peers (cl_end_point (first_client tr)))))"
  using first_reachable one_peer_per_address by blast

text \<open>The program never encrypts: in every state it can reach, each of its peers is one that
  writes to its socket in clear, whatever options the program was started with.\<close>

theorem never_encrypted:
  assumes "reachable (client_init e) (client_step e) (Inr c)" and "p \<in> set (peers (cl_end_point c))"
  shows "write_call p m = Write (peer_fd p) m"
proof -
  have "peer_ok p" using reachable_peers_ok[OF assms(1)] assms(2) by (auto simp: peers_ok_def list_all_iff)
  then show ?thesis by (simp add: peer_ok_def write_call_def)
qed

theorem never_encrypted_witness:
  "\<exists>tr. reachable (client_init first_env) (client_step first_env) (Inr (first_client tr)) \<and>
    write_call (IO_fields [] 0 0 new_TLS) ''x'' = Write CLOSED ''x''"
proof -
  obtain tr where r: "reachable (client_init first_env) (client_step first_env) (Inr (first_client tr))"
    using first_reachable by blast
  from never_encrypted[OF r, of "IO_fields [] 0 0 new_TLS" "''x''"] r show ?thesis
    by (auto simp: first_client_def IO_fields_def)
qed

lemma timer_step:
  "peers (cl_end_point c) \<noteq> [] \<Longrightarrow>
    client_step e (Inr c) (Inl (Uncaught ''Function not implemented''))"
  using client_step.thread[OF thread_step.timer[of e c]] by (simp add: timer_pass_eq)

text \<open>C28: the timer ends the program: in every state the program can reach, the timer thread's next
  pass raises the exception of timerCallback, which nobody catches, and it can do nothing else.
  Since that thread starts with the end point, no run of the program survives its first tick.\<close>

theorem timer_ends_program:
  assumes "reachable (client_init e) (client_step e) (Inr c)"
  shows "timer_pass (peers (cl_end_point c)) = Inl (Uncaught ''Function not implemented'') \<and>
    client_step e (Inr c) (Inl (Uncaught ''Function not implemented''))"
proof -
  have "peers (cl_end_point c) \<noteq> []" using reachable_peers_ok[OF assms] by (simp add: peers_ok_def)
  then show ?thesis by (simp add: timer_pass_eq timer_step)
qed

theorem timer_ends_program_witness:
  "\<exists>tr. reachable (client_init first_env) (client_step first_env) (Inr (first_client tr)) \<and>
    client_step first_env (Inr (first_client tr)) (Inl (Uncaught ''Function not implemented''))"
  using first_reachable timer_ends_program by blast

section \<open>From a line to the socket\<close>

lemma threadFunc_message:
  assumes "servant p = Waiting" and "que (peer_que p) = []" and "peer_fd p \<noteq> CLOSED" and "ssl (tls p) = 0"
  shows "threadFunc e mgr (p\<lparr>peer_que := push (WRITE, m) (peer_que p)\<rparr>) tr =
    Some (p\<lparr>peer_que := \<lparr>que = []\<rparr>\<rparr>, tr @ [(Write (peer_fd p) m, e tr (Write (peer_fd p) m))])"
  using assms by (simp add: threadFunc_pop[of _ "(WRITE, m)" "[]"] tsq.queue_laws IO_write_run write_call_def)

lemma stdin_step:
  assumes "que (cl_queue c) = line # rest"
    and "interpret_stream line no_arguments = Inr (Some st)"
    and "peers (cl_end_point c) = ps @ p # qs" and "\<forall>q \<in> set ps. \<not> takes st q" and "takes st p"
  shows "thread_step e (Inr c) (Inr (c\<lparr>cl_end_point := (cl_end_point c)\<lparr>peers :=
      ps @ (assign_master (arg_ip st) (arg_port st) p)
        \<lparr>peer_que := push (notification st, arg_msg st) (peer_que p)\<rparr> # qs\<rparr>,
      cl_queue := (cl_queue c)\<lparr>que := rest\<rparr>\<rparr>))"
proof -
  have "pop (cl_queue c) = Some (line, (cl_queue c)\<lparr>que := rest\<rparr>)"
    using assms(1) by (simp add: pop_que)
  from thread_step.stdin[OF this, of e 0] dispatch_taken[OF assms(3-5), of e 0 "cl_trace c"] assms(2)
  show ?thesis by (simp add: interpretRequest_def)
qed

lemma two_threads: "thread_step e s t \<Longrightarrow> thread_step e t u \<Longrightarrow> (client_step e)\<^sup>*\<^sup>* s u"
  by (meson client_step.thread converse_rtranclp_into_rtranclp r_into_rtranclp)

text \<open>The two steps from a line with a message in front of the queue to the socket.\<close>

lemma message_threads:
  assumes "que (cl_queue c) = unwords (''-i'' # a # ''-m'' # ws) # rest"
    and "is_word a" and "validateAddrTCP a = Inr addr"
    and "\<forall>w \<in> set ws. is_word w \<and> w \<noteq> ''-i'' \<and> w \<noteq> ''-f''"
    and "peers (cl_end_point c) = ps @ p # qs"
    and "\<forall>q \<in> set ps. \<not> request_matches (addr_ip addr) (addr_port addr) CLOSED q"
    and "addr_ip addr \<noteq> []" and "addr_port addr \<noteq> 0"
    and "peer_ip p = addr_ip addr" and "peer_port p = addr_port addr"
    and "servant p = Waiting" and "que (peer_que p) = []" and "peer_fd p \<noteq> CLOSED" and "ssl (tls p) = 0"
  shows "\<exists>c1 c2 r. thread_step e (Inr c) (Inr c1) \<and> thread_step e (Inr c1) (Inr c2) \<and>
    cl_trace c2 = cl_trace c @ [(Write (peer_fd p) (unwords ws), r)] \<and> que (cl_queue c2) = rest"
proof -
  let ?st = "\<lparr>notification = WRITE, opt = ''-m'', arg_ip = addr_ip addr, arg_fd = CLOSED,
      arg_port = addr_port addr, arg_msg = unwords ws\<rparr>"
  let ?p = "p\<lparr>peer_que := push (WRITE, unwords ws) (peer_que p)\<rparr>"
  let ?c1 = "c\<lparr>cl_end_point := (cl_end_point c)\<lparr>peers := ps @ ?p # qs\<rparr>,
      cl_queue := (cl_queue c)\<lparr>que := rest\<rparr>\<rparr>"
  have "takes ?st p" using assms(7-10) by (simp add: request_matches_def)
  moreover have "assign_master (addr_ip addr) (addr_port addr) p = p"
    using assms(7,9) by (simp add: assign_master_def)
  ultimately have 1: "thread_step e (Inr c) (Inr ?c1)"
    using stdin_step[OF assms(1) message_line[OF assms(2-4)] assms(5)] assms(6) by simp
  have 2: "threadFunc e (appendNotificationNode e (cl_end_point ?c1)) ?p (cl_trace ?c1) =
      Some (p\<lparr>peer_que := \<lparr>que = []\<rparr>\<rparr>, cl_trace c @ [(Write (peer_fd p) (unwords ws),
        e (cl_trace c) (Write (peer_fd p) (unwords ws)))])"
    using threadFunc_message[OF assms(11-14)] by simp
  have "peers (cl_end_point ?c1) = ps @ ?p # qs" by simp
  from 1 thread_step.peer[OF this 2] show ?thesis
    by (intro exI conjI) (assumption, assumption, simp_all)
qed

text \<open>A message gets through: when a line with an address and a message is next in the end
  point's queue and the peer of that address is connected and waits for work, two steps, one
  of the interpreting thread and one of the peer, write exactly that message to the peer's
  socket and do nothing else to the outside world.\<close>

theorem message_reaches_socket:
  assumes "que (cl_queue c) = unwords (''-i'' # a # ''-m'' # ws) # rest"
    and "is_word a" and "validateAddrTCP a = Inr addr"
    and "\<forall>w \<in> set ws. is_word w \<and> w \<noteq> ''-i'' \<and> w \<noteq> ''-f''"
    and "peers (cl_end_point c) = ps @ p # qs"
    and "\<forall>q \<in> set ps. \<not> request_matches (addr_ip addr) (addr_port addr) CLOSED q"
    and "addr_ip addr \<noteq> []" and "addr_port addr \<noteq> 0"
    and "peer_ip p = addr_ip addr" and "peer_port p = addr_port addr"
    and "servant p = Waiting" and "que (peer_que p) = []" and "peer_fd p \<noteq> CLOSED" and "ssl (tls p) = 0"
  shows "\<exists>c' r. (client_step e)\<^sup>*\<^sup>* (Inr c) (Inr c') \<and>
    cl_trace c' = cl_trace c @ [(Write (peer_fd p) (unwords ws), r)] \<and> que (cl_queue c') = rest"
  using message_threads[OF assms, of e] two_threads[of e "Inr c"] by blast

definition linked_peer :: IO where
  "linked_peer = (IO_fields [] 0 0 new_TLS)\<lparr>peer_ip := ''10.0.0.1'', peer_port := 80, peer_fd := 5\<rparr>"

definition linked_client :: "string \<Rightarrow> client" where
  "linked_client line = (first_client [])\<lparr>cl_end_point := \<lparr>ep_epoll = \<lparr>epoll_fd = 3, waiter = True\<rparr>,
     peers = [linked_peer]\<rparr>, cl_queue := \<lparr>que = [line]\<rparr>\<rparr>"

lemmas linked_defs = linked_client_def linked_peer_def first_client_def fresh

theorem message_reaches_socket_witness:
  "\<exists>c' r. (client_step first_env)\<^sup>*\<^sup>*
      (Inr (linked_client (unwords [''-i'', ''10.0.0.1:80'', ''-m'', ''hi'', ''you'']))) (Inr c') \<and>
    cl_trace c' = [(Write 5 ''hi you'', r)]"
proof -
  let ?c = "linked_client (unwords [''-i'', ''10.0.0.1:80'', ''-m'', ''hi'', ''you''])"
  have w: "is_word ''10.0.0.1:80''" "\<forall>w \<in> set [''hi'', ''you'']. is_word w \<and> w \<noteq> ''-i'' \<and> w \<noteq> ''-f''"
    by (simp_all add: is_word_def is_space_def)
  have q: "que (cl_queue ?c) = unwords (''-i'' # ''10.0.0.1:80'' # ''-m'' # [''hi'', ''you'']) # []"
    by (simp add: linked_client_def)
  have ps: "peers (cl_end_point ?c) = [] @ linked_peer # []" by (simp add: linked_client_def)
  have "\<exists>c' r. (client_step first_env)\<^sup>*\<^sup>* (Inr ?c) (Inr c') \<and>
      cl_trace c' = cl_trace ?c @ [(Write (peer_fd linked_peer) (unwords [''hi'', ''you'']), r)] \<and>
      que (cl_queue c') = []"
    by (rule message_reaches_socket[OF q w(1) demo_line_address w(2) ps]) (simp_all add: linked_defs)
  then show ?thesis by (auto simp: linked_defs)
qed

text \<open>C26: a dead connection is closed: when the line that the epoll thread wrote for a hang-up is
  next in the queue, and the first peer that holds the descriptor has an empty queue and a thread that waits
  in \<^verbatim>\<open>pop\<close> (one in its reading loop does not look at its queue), then one step of the
  interpreting thread, which calls nothing, and one step of that peer's thread close the descriptor
  and leave the peer disconnected, with its address; nothing else is called and no other peer changes.\<close>

theorem hang_up_closes_socket:
  assumes "que (cl_queue c) = event_request (fd, ev) # rest" and "hang_up ev"
    and "0 \<le> fd" and "fd \<le> 2147483647"
    and "peers (cl_end_point c) = ps @ p # qs" and "\<forall>q \<in> set ps. peer_fd q \<noteq> fd"
    and "peer_fd p = fd" and "peer_ip p \<noteq> []"
    and "servant p = Waiting" and "que (peer_que p) = []"
  shows "\<exists>c1 c' p' r. thread_step e (Inr c) (Inr c1) \<and> cl_trace c1 = cl_trace c \<and> cl_queue c1 = \<lparr>que = rest\<rparr> \<and>
    thread_step e (Inr c1) (Inr c') \<and> cl_trace c' = cl_trace c @ [(Close fd, r)] \<and>
    peers (cl_end_point c') = ps @ p' # qs \<and> peer_fd p' = CLOSED \<and> address p' = address p"
proof -
  let ?st = "no_arguments\<lparr>arg_fd := fd, notification := CLOSE\<rparr>"
  let ?p = "p\<lparr>peer_que := push (CLOSE, []) (peer_que p)\<rparr>"
  let ?c1 = "c\<lparr>cl_end_point := (cl_end_point c)\<lparr>peers := ps @ ?p # qs\<rparr>,
      cl_queue := (cl_queue c)\<lparr>que := rest\<rparr>\<rparr>"
  have fd: "fd \<noteq> CLOSED" using assms(3) by (simp add: CLOSED_def)
  have l: "interpret_stream (event_request (fd, ev)) no_arguments = Inr (Some ?st)"
    using event_request_read[of fd ev] assms(2-4) by simp
  have "takes ?st p" "\<forall>q \<in> set ps. \<not> takes ?st q"
    using assms(6,7) fd by (auto simp: request_matches_def no_arguments_def)
  moreover have "assign_master (arg_ip ?st) (arg_port ?st) p = p"
    using assms(8) by (simp add: assign_master_def)
  ultimately have 1: "thread_step e (Inr c) (Inr ?c1)"
    using stdin_step[OF assms(1) l assms(5)] by (simp add: no_arguments_def)
  have 2: "threadFunc e (appendNotificationNode e (cl_end_point ?c1)) ?p (cl_trace ?c1) =
      Some (p\<lparr>peer_que := \<lparr>que = []\<rparr>, peer_fd := CLOSED\<rparr>, cl_trace c @ [(Close fd, e (cl_trace c) (Close fd))])"
    using assms(7,9,10) fd
    by (simp add: threadFunc_pop[of _ "(CLOSE, [])" "[]"] tsq.queue_laws IO_close_eq)
  have "peers (cl_end_point ?c1) = ps @ ?p # qs" by simp
  from thread_step.peer[OF this 2] have 3: "thread_step e (Inr ?c1) (Inr (?c1\<lparr>cl_end_point :=
      (cl_end_point ?c1)\<lparr>peers := ps @ p\<lparr>peer_que := \<lparr>que = []\<rparr>, peer_fd := CLOSED\<rparr> # qs\<rparr>,
      cl_trace := cl_trace c @ [(Close fd, e (cl_trace c) (Close fd))]\<rparr>))" .
  show ?thesis
    by (rule exI[of _ ?c1], rule exI, rule exI[of _ "p\<lparr>peer_que := \<lparr>que = []\<rparr>, peer_fd := CLOSED\<rparr>"],
        rule exI, intro conjI, rule 1, simp, simp, rule 3) (simp_all add: address_def)
qed

theorem hang_up_closes_socket_witness:
  "\<exists>c1 c' p' r. thread_step first_env (Inr (linked_client (event_request (5, 0x2010)))) (Inr c1) \<and>
    thread_step first_env (Inr c1) (Inr c') \<and>
    cl_trace c' = [(Close 5, r)] \<and> peers (cl_end_point c') = [p'] \<and> peer_fd p' = CLOSED"
proof -
  let ?c = "linked_client (event_request (5, 0x2010))"
  have h: "hang_up 0x2010" by (simp add: hang_up_def epoll_bits)
  have q: "que (cl_queue ?c) = event_request (5, 0x2010) # []" by (simp add: linked_client_def)
  have ps: "peers (cl_end_point ?c) = [] @ linked_peer # []" by (simp add: linked_client_def)
  have "\<exists>c1 c' p' r. thread_step first_env (Inr ?c) (Inr c1) \<and> cl_trace c1 = cl_trace ?c \<and> cl_queue c1 = \<lparr>que = []\<rparr> \<and>
      thread_step first_env (Inr c1) (Inr c') \<and> cl_trace c' = cl_trace ?c @ [(Close 5, r)] \<and>
      peers (cl_end_point c') = [] @ p' # [] \<and> peer_fd p' = CLOSED \<and> address p' = address linked_peer"
    by (rule hang_up_closes_socket[OF q h _ _ ps]) (simp_all add: linked_defs)
  then show ?thesis by (auto simp: linked_client_def first_client_def)
qed

end
