(* ===== verification/Client_Descriptors.thy ===== *)
theory Client_Descriptors
  imports Client_System "HOL-Library.Multiset"
begin

unbundle bit_operations_syntax

text \<open>
  The descriptors of the running program: which of its sockets are open, which peer each belongs
  to, and which are under the watch of epoll. Peer_Life shows for one peer that it keeps at most
  one socket; here all peers and all other threads are in the same trace.
\<close>

section \<open>Calls of the threads\<close>

text \<open>The calls of \<^verbatim>\<open>main\<close> before its threads run.\<close>

definition startup :: "sysc \<Rightarrow> bool" where
  "startup c \<longleftrightarrow> neutral c \<and> \<not> waits c"

declare startup_def [simp]

lemma drain_startup: "drain e q n tr = Some tr' \<Longrightarrow> emits startup tr tr'"
proof (induction rule: drain.raw_induct[rotated, consumes 1])
  case (1 dr e q n tr tr')
  obtain a tr1 where s: "sys e (Mq_receive q n) tr = (a, tr1)" by fastforce
  then have "emits startup tr tr1" by (auto dest: sysD)
  with 1(1)[of e q n tr1] 1(2) s show ?case by (auto split: if_splits intro: emits.trans)
qed

lemma ProcessInstance_new_startup: "emits startup tr (snd (ProcessInstance_new e tr))"
  by (simp add: ProcessInstance_new_def sys_eq Let_def)

lemma open_queue_startup: "open_queue e tr = Some (Inr q, tr') \<Longrightarrow> emits startup tr tr'"
proof -
  assume o: "open_queue e tr = Some (Inr q, tr')"
  obtain a1 tr1 where 1: "sys e (Mq_open True) tr = (a1, tr1)" by fastforce
  obtain a2 tr2 where 2: "sys e (Mq_notify (ret a1)) tr1 = (a2, tr2)" by fastforce
  obtain a3 tr3 where 3: "sys e (Mq_getattr_msgsize (ret a1)) tr2 = (a3, tr3)" by fastforce
  obtain a4 tr4 where 4: "sys e (Malloc (nat (optval a3))) tr3 = (a4, tr4)" by fastforce
  from sysD[OF 1] sysD[OF 2] sysD[OF 3] sysD[OF 4] have "emits startup tr tr4" by simp
  moreover from o 1 2 3 4 have "drain e (ret a1) (nat (optval a3)) tr4 = Some tr'"
    by (simp add: open_queue_def split: if_splits option.splits)
  ultimately show ?thesis by (blast intro: emits.trans drain_startup)
qed

lemma main_startup:
  assumes "main e args opts junk junk' tr = Some (Inr r, tr')"
  shows "emits startup tr tr'"
proof -
  obtain i tr1 where i: "ProcessInstance_new e tr = (i, tr1)" by fastforce
  with ProcessInstance_new_startup[of tr e] have 1: "emits startup tr tr1" by simp
  from assms i obtain mq tr2 where q: "open_queue e tr1 = Some (Inr mq, tr2)"
    by (auto simp: main_def split: sum.splits if_splits option.splits prod.splits)
  from assms i q have "tr' = snd (Epoll_new e tr2)"
    by (auto simp: main_def EndPoint_new_peers Let_def split: sum.splits if_splits prod.splits)
  then have "emits startup tr2 tr'" by (simp add: Epoll_new_def sys_eq Let_def)
  with 1 open_queue_startup[OF q] show ?thesis by (blast intro: emits.trans)
qed

lemma main_neutral: "main e args opts junk junk' tr = Some (Inr r, tr') \<Longrightarrow> emits neutral tr tr'"
  by (erule emits_mono[OF main_startup]) simp

lemma waiterFunction_neutral: "emits neutral tr (snd (waiterFunction e ep q tr))"
  by (auto simp: waiterFunction_def handle_error_def sys_eq Let_def)

lemma new_msg_queue_neutral: "emits neutral tr (snd (new_msg_queue e d q tr))"
  by (auto simp: new_msg_queue_def sys_eq Let_def)

lemma interpretRequest_quiet: "interpretRequest e junk arg ep tr = (r, tr') \<Longrightarrow> tr' = tr"
  by (auto simp: interpretRequest_def dispatch_def IO_new_plain Let_def split: sum.splits option.splits prod.splits if_splits)

section \<open>Every open socket has an owner\<close>

definition held_fds :: "IO list \<Rightarrow> int multiset" where
  "held_fds ps = filter_mset (\<lambda>fd. fd \<noteq> CLOSED) (mset (map peer_fd ps))"

lemma held_fds_simps [simp]:
  "held_fds [] = {#}" "held_fds (ps @ qs) = held_fds ps + held_fds qs"
  "held_fds (p # ps) = (if peer_fd p = CLOSED then {#} else {#peer_fd p#}) + held_fds ps"
  by (simp_all add: held_fds_def)

text \<open>What a step of a peer's thread does to the open sockets and to its own descriptor.\<close>

lemma threadFunc_sockets:
  assumes "setfl_works e" and "threadFunc e (appendNotificationNode e ep) p tr = Some (p', tr')"
  obtains (same) "open_after [] tr' = open_after [] tr" "peer_fd p' = peer_fd p \<or> peer_fd p = CLOSED"
  | (opened) "peer_fd p = CLOSED" "peer_fd p' \<noteq> CLOSED" "open_after [] tr' = peer_fd p' # open_after [] tr"
  | (closed) "peer_fd p' = CLOSED" "open_after [] tr' = remove1 (peer_fd p) (open_after [] tr)"
  using assms(2)
proof (cases rule: threadFunc_cases)
  case (write_it q m)
  with same show thesis by (simp add: emits_neutral_open[OF IO_write_neutral])
next
  case (close_it q a)
  with closed show thesis by (auto simp: open_after_append)
next
  case (connect_it b tr1 a)
  from end_point_manager.IO_connect_no_leak[OF assms(1) connect_it(3), of "open_after [] tr"] connect_it(2,4)
  show thesis by (auto simp: extends_def leaves_def open_after_append intro: same opened)
next
  case (read_it c q s)
  with same show thesis by (simp add: emits_neutral_open[OF IO_read_neutral])
next
  case (read_close a)
  with closed show thesis
    by (auto simp: open_after_append emits_neutral_open[OF IO_read_neutral])
qed (use same in auto)

definition socket_owners :: "client outcome \<Rightarrow> bool" where
  "socket_owners s \<longleftrightarrow>
     (\<forall>c. s = Inr c \<longrightarrow> mset (open_after [] (cl_trace c)) \<subseteq># held_fds (peers (cl_end_point c)))"

lemma owners_neutral:
  "socket_owners (Inr c) \<Longrightarrow> emits neutral (cl_trace c) tr \<Longrightarrow>
    held_fds (peers (cl_end_point c)) = held_fds (peers (cl_end_point c')) \<Longrightarrow> cl_trace c' = tr \<Longrightarrow>
    socket_owners (Inr c')"
  by (simp add: socket_owners_def emits_neutral_open)

lemma held_fds_dispatch:
  "dispatch e junk st ep tr = (Inr ep', tr') \<Longrightarrow> held_fds (peers ep') = held_fds (peers ep)"
proof (cases "\<exists>p \<in> set (peers ep). takes st p")
  case True
  assume d: "dispatch e junk st ep tr = (Inr ep', tr')"
  from split_list_first_prop[OF True] obtain ps p qs
    where s: "peers ep = ps @ p # qs" "\<forall>q \<in> set ps. \<not> takes st q" "takes st p" by blast
  from dispatch_taken[OF s, of e junk tr] d s show ?thesis by (auto simp: assign_master_def)
next
  case False
  assume "dispatch e junk st ep tr = (Inr ep', tr')"
  with False dispatch_none[of ep st e junk tr] show ?thesis by (auto simp: IO_fields_def)
qed

lemma held_fds_request:
  "interpretRequest e junk arg ep tr = (Inr ep', tr') \<Longrightarrow> held_fds (peers ep') = held_fds (peers ep)"
  by (auto simp: interpretRequest_def split: sum.splits option.splits dest: held_fds_dispatch)

lemma owners_thread:
  assumes f: "setfl_works e" and o: "socket_owners s" and step: "thread_step e s t"
  shows "socket_owners t"
  using step
proof cases
  case (stdin c arg q junk r tr)
  show ?thesis
  proof (cases r)
    case (Inr ep)
    with o stdin held_fds_request[of e junk arg _ _ ep tr] interpretRequest_quiet[OF stdin(4)]
    show ?thesis by (auto simp: socket_owners_def)
  qed (use stdin in \<open>simp add: socket_owners_def\<close>)
next
  case (epoll c r tr)
  from waiterFunction_neutral[of "cl_trace c" e "ep_epoll (cl_end_point c)" "cl_queue c"] epoll o
  show ?thesis by (cases r) (auto simp: socket_owners_def emits_neutral_open)
next
  case (timer c)
  with o show ?thesis by (cases "timer_pass (peers (cl_end_point c))") (auto simp: socket_owners_def)
next
  case (peer c ps p qs p' tr)
  let ?os = "open_after [] (cl_trace c)"
  have sub: "mset ?os \<subseteq># held_fds (ps @ p # qs)" using o peer(1,3) by (simp add: socket_owners_def)
  from f peer(4) have "mset (open_after [] tr) \<subseteq># held_fds (ps @ p' # qs)"
  proof (cases rule: threadFunc_sockets)
    case same
    with sub show ?thesis by (auto intro: subset_mset.order_trans)
  next
    case opened
    with sub show ?thesis by simp
  next
    case closed
    show ?thesis
    proof (cases "peer_fd p = CLOSED")
      case True
      with closed sub show ?thesis by (auto intro: subset_mset.order_trans[OF diff_subset_eq_self])
    next
      case False
      with closed sub show ?thesis by (simp add: subset_eq_diff_conv)
    qed
  qed
  with peer(2) show ?thesis by (simp add: socket_owners_def)
qed

lemma owners_step:
  assumes "setfl_works e" and "socket_owners s" and "client_step e s t"
  shows "socket_owners t"
  using assms(3)
proof cases
  case thread
  with assms(1,2) show ?thesis by (rule owners_thread)
next
  case (message c r tr)
  from new_msg_queue_neutral[of "cl_trace c" e "cl_mq c" "cl_queue c"] message assms(2) show ?thesis
    by (cases r) (auto simp: socket_owners_def emits_neutral_open)
qed

lemma owners_init: "client_init e s \<Longrightarrow> socket_owners s"
  unfolding client_init_def socket_owners_def
  by (auto dest!: main_neutral simp: emits_neutral_open[where tr = "[]"])

lemma owners_reachable:
  assumes "setfl_works e" and "reachable (client_init e) (client_step e) s"
  shows "socket_owners s"
  using assms(2)
  by (induction rule: reachable.induct) (auto intro: owners_init owners_step[OF assms(1)])

text \<open>C7: the program leaks no socket: in every state it can reach, whatever its threads did and in
  whatever order, the sockets that are open are, counted one by one, among the descriptors that
  its peers hold: each has an owner that can still close it. (As long as F_SETFL works.)\<close>

theorem no_socket_leaked:
  assumes "setfl_works e" and "reachable (client_init e) (client_step e) (Inr c)"
  shows "mset (open_after [] (cl_trace c)) \<subseteq># held_fds (peers (cl_end_point c))"
  using owners_reachable[OF assms] by (simp add: socket_owners_def)

section \<open>Every connected peer is watched\<close>

definition watched :: "client \<Rightarrow> bool" where
  "watched c \<longleftrightarrow> (\<forall>p \<in> set (peers (cl_end_point c)). peer_fd p \<noteq> CLOSED \<longrightarrow>
     Epoll_ctl_add (epoll_fd (ep_epoll (cl_end_point c))) (peer_fd p) default_events
       \<in> fst ` set (cl_trace c))"

lemma emits_prefix: "emits P tr tr' \<Longrightarrow> set tr \<subseteq> set tr'"
  by (auto simp: extends_def)

lemma IO_connect_prefix:
  "IO_connect e (appendNotificationNode e ep) io tr = (ok, io', tr') \<Longrightarrow> set tr \<subseteq> set tr'"
  by (rule emits_prefix[OF IO_connect_emits[where P = "\<lambda>_. True"]])
    (auto simp: appendNotificationNode_run Let_def)

lemma IO_connect_watches:
  assumes "IO_connect e (appendNotificationNode e ep) io tr = (b, io', tr')" and "ssl (tls io) = 0"
    and "peer_fd io' \<noteq> CLOSED"
  shows "Epoll_ctl_add (epoll_fd (ep_epoll ep)) (peer_fd io') default_events \<in> fst ` set tr'"
  using assms
  by (auto simp: IO_connect_def notifyManager_def appendNotificationNode_run Let_def
      split: prod.splits if_splits)

lemma threadFunc_watches:
  assumes "threadFunc e (appendNotificationNode e ep) p tr = Some (p', tr')" and "ssl (tls p) = 0"
  shows "set tr \<subseteq> set tr' \<and> (peer_fd p' = CLOSED \<or> peer_fd p' = peer_fd p \<or>
    Epoll_ctl_add (epoll_fd (ep_epoll ep)) (peer_fd p') default_events \<in> fst ` set tr')"
  using assms(1)
proof (cases rule: threadFunc_cases)
  case (write_it q m)
  with emits_prefix[OF IO_write_neutral] show ?thesis by simp
next
  case (connect_it b tr1 a)
  with IO_connect_prefix[OF connect_it(3)]
    IO_connect_watches[OF connect_it(3) assms(2)] show ?thesis by auto
next
  case (read_it c q s)
  with emits_prefix[OF IO_read_neutral] show ?thesis by simp
next
  case (read_close a)
  with emits_prefix[OF IO_read_neutral[of tr e p]] show ?thesis by auto
qed auto

lemma dispatch_fds:
  assumes "dispatch e junk st ep tr = (Inr ep', tr')"
  shows "ep_epoll ep' = ep_epoll ep \<and>
    (\<forall>p \<in> set (peers ep'). peer_fd p \<noteq> CLOSED \<longrightarrow> peer_fd p \<in> peer_fd ` set (peers ep))"
proof (cases "\<exists>p \<in> set (peers ep). takes st p")
  case True
  from split_list_first_prop[OF True] obtain ps p qs
    where s: "peers ep = ps @ p # qs" "\<forall>q \<in> set ps. \<not> takes st q" "takes st p" by blast
  from dispatch_taken[OF s, of e junk tr] assms s show ?thesis by (auto simp: assign_master_def)
next
  case False
  with assms dispatch_none[of ep st e junk tr] show ?thesis by (auto simp: IO_fields_def)
qed

lemma request_fds:
  assumes "interpretRequest e junk arg ep tr = (Inr ep', tr')"
  shows "ep_epoll ep' = ep_epoll ep \<and>
    (\<forall>p \<in> set (peers ep'). peer_fd p \<noteq> CLOSED \<longrightarrow> peer_fd p \<in> peer_fd ` set (peers ep))"
  using assms dispatch_fds
  by (auto simp: interpretRequest_def split: sum.splits option.splits)

lemma watched_later:
  "watched c \<Longrightarrow> set (cl_trace c) \<subseteq> set tr \<Longrightarrow> watched (c\<lparr>cl_queue := q, cl_trace := tr\<rparr>)"
  by (auto simp: watched_def)

lemma watched_thread:
  assumes w: "watched c" and ok: "peers_ok (peers (cl_end_point c))"
    and step: "thread_step e (Inr c) (Inr c')"
  shows "watched c'"
  using step
proof cases
  case (stdin arg q junk r tr)
  then obtain ep where ep: "r = Inr ep" "c' = c\<lparr>cl_end_point := ep, cl_queue := q, cl_trace := tr\<rparr>"
    by (cases r) auto
  with request_fds[of e junk arg _ _ ep tr] interpretRequest_quiet[OF stdin(3)] stdin(3) w show ?thesis
    by (fastforce simp: watched_def)
next
  case (epoll r tr)
  with emits_prefix[OF waiterFunction_neutral[of "cl_trace c" e "ep_epoll (cl_end_point c)" "cl_queue c"]] w
  show ?thesis by (cases r) (auto intro: watched_later)
next
  case timer
  with w show ?thesis by (cases "timer_pass (peers (cl_end_point c))") auto
next
  case (peer ps p qs p' tr)
  have "ssl (tls p) = 0" using ok peer(2) by (simp add: peers_ok_def peer_ok_def)
  note t = threadFunc_watches[OF peer(3) this]
  let ?w = "\<lambda>r. Epoll_ctl_add (epoll_fd (ep_epoll (cl_end_point c))) (peer_fd r) default_events"
  have later: "?w r \<in> fst ` set tr" if "r \<in> set (ps @ p # qs)" "peer_fd r \<noteq> CLOSED" for r
  proof -
    have "r \<in> set (peers (cl_end_point c))" using that(1) peer(2) by simp
    with w that(2) have "?w r \<in> fst ` set (cl_trace c)" unfolding watched_def by blast
    with t show ?thesis by blast
  qed
  with t have "peer_fd p' = CLOSED \<or> ?w p' \<in> fst ` set tr"
    by (metis in_set_conv_decomp)
  then have "?w r \<in> fst ` set tr" if "r \<in> set (ps @ p' # qs)" "peer_fd r \<noteq> CLOSED" for r
    using later[of r] that by (cases "r = p'") auto
  with peer(1) show ?thesis unfolding watched_def by simp
qed

lemma watched_init: "client_init e (Inr c) \<Longrightarrow> watched c"
  by (auto simp: client_init_def watched_def IO_fields_def dest!: main_end_point)

definition watched_inv :: "client outcome \<Rightarrow> bool" where
  "watched_inv s \<longleftrightarrow> client_inv s \<and> (\<forall>c. s = Inr c \<longrightarrow> watched c)"

lemma watched_inv_step:
  assumes i: "watched_inv s" and step: "client_step e s t"
  shows "watched_inv t"
proof -
  have "watched c" if t: "t = Inr c" for c
    using step
  proof cases
    case thread
    then obtain c0 where s: "s = Inr c0" by (cases rule: thread_step.cases) auto
    with thread t watched_thread[of c0 e c] i show ?thesis by (simp add: watched_inv_def client_inv_def)
  next
    case (message c0 r tr)
    with emits_prefix[OF new_msg_queue_neutral[of "cl_trace c0" e "cl_mq c0" "cl_queue c0"]] i t show ?thesis
      by (cases r) (auto simp: watched_inv_def intro: watched_later)
  qed
  with client_step_inv[OF _ step] i show ?thesis by (simp add: watched_inv_def)
qed

interpretation client_watch: invariant_system "client_init e" "client_step e" watched_inv for e
proof unfold_locales
  show "watched_inv s" if "client_init e s" for s
    using that client_init_inv[OF that] watched_init by (auto simp: watched_inv_def)
qed (rule watched_inv_step)

text \<open>C8: no connection goes unnoticed: in every state the program can reach, each peer that holds a
  descriptor has given it to epoll, with edge-triggered notification of input and of hang-ups.\<close>

theorem connected_peers_are_watched:
  assumes "reachable (client_init e) (client_step e) (Inr c)" and "p \<in> set (peers (cl_end_point c))"
    and "peer_fd p \<noteq> CLOSED"
  shows "Epoll_ctl_add (epoll_fd (ep_epoll (cl_end_point c))) (peer_fd p) (EPOLLIN OR EPOLLET OR EPOLLRDHUP)
    \<in> fst ` set (cl_trace c)"
  using client_watch.inv_reachable[OF assms(1)] assms(2,3)
  by (simp add: watched_inv_def watched_def default_events_def)

section \<open>One descriptor, two peers\<close>

text \<open>
  A run in which the first server refuses and the second accepts. The kernel gives the lowest free
  number for a socket, which is 5 whenever none is open. Three command lines arrive; the second
  names no server and makes the end point create a second peer, for the third.
\<close>

definition reuse_line :: "nat \<Rightarrow> string" where
  "reuse_line k = (if k = 1 then ''-i 1.1.1.1:80'' else if k = 2 then ''-r'' else ''-i 2.2.2.2:80'')"

definition reuse_env :: env where
  "reuse_env tr c =
     (case c of
        Open_lock_file \<Rightarrow> answer 4
      | Mq_open _ \<Rightarrow> answer 6
      | Mq_getattr_msgsize _ \<Rightarrow> (answer 0)\<lparr>optval := 8192\<rparr>
      | Malloc _ \<Rightarrow> answer 1
      | Mq_receive _ _ \<Rightarrow>
          if receives tr \<in> {1, 2, 3}
          then (answer (int (length (reuse_line (receives tr)))))\<lparr>bytes := reuse_line (receives tr)\<rparr>
          else answer (-1)
      | Epoll_create1 \<Rightarrow> answer 3
      | Getaddrinfo h _ \<Rightarrow>
          (answer 0)\<lparr>infos := [\<lparr>ai_family = 2, ai_socktype = 1, ai_protocol = 6, ai_addr = h\<rparr>]\<rparr>
      | Socket _ _ _ \<Rightarrow> answer 5
      | Inet_pton _ \<Rightarrow> answer 1
      | Connect _ a \<Rightarrow> if a = ''1.1.1.1'' then (answer (-1))\<lparr>errno := 111\<rparr> else answer 0
      | _ \<Rightarrow> answer 0)"

definition reuse_client :: "IO list \<Rightarrow> string list \<Rightarrow> trace \<Rightarrow> client" where
  "reuse_client ps ls tr = \<lparr>cl_mq = 6, cl_end_point = \<lparr>ep_epoll = \<lparr>epoll_fd = 3, waiter = True\<rparr>,
     peers = ps\<rparr>, cl_queue = \<lparr>que = ls\<rparr>, cl_trace = tr\<rparr>"

text \<open>Reached with these peers, lines in the queue, messages received and open sockets.\<close>

definition reuse_reaches :: "IO list \<Rightarrow> string list \<Rightarrow> nat \<Rightarrow> int list \<Rightarrow> bool" where
  "reuse_reaches ps ls k os \<longleftrightarrow>
     (\<exists>tr. reachable (client_init reuse_env) (client_step reuse_env) (Inr (reuse_client ps ls tr)) \<and>
        receives tr = k \<and> open_after [] tr = os)"

lemma receives_append [simp]: "receives (xs @ ys) = receives xs + receives ys"
  by (simp add: receives_def)

lemma receives_simps [simp]:
  "receives [] = 0" "receives ((Mq_receive q n, a) # tr) = Suc (receives tr)"
  "(\<And>q n. c \<noteq> Mq_receive q n) \<Longrightarrow> receives ((c, a) # tr) = receives tr"
  by (simp_all add: receives_def)

lemma reuse_drain:
  "receives tr = 0 \<Longrightarrow> drain reuse_env q n tr = Some (tr @ [(Mq_receive q n, answer (-1))])"
  by (subst drain.simps) (simp add: sys_eq reuse_env_def)

lemma reuse_main:
  "\<exists>tr. main reuse_env [] [] 0 0 [] = Some (Inr (6, \<lparr>ep_epoll = \<lparr>epoll_fd = 3, waiter = True\<rparr>,
      peers = [IO_fields [] 0 0 new_TLS]\<rparr>), tr) \<and> receives tr = 1 \<and> open_after [] tr = []"
  by (simp add: main_def ProcessInstance_new_def open_queue_def sys_eq reuse_env_def reuse_drain
      EndPoint_new_peers Epoll_new_def read_options_def Let_def)

lemma reuse_start: "reuse_reaches [IO_fields [] 0 0 new_TLS] [] 1 []"
proof -
  obtain tr where m: "main reuse_env [] [] 0 0 [] = Some (Inr (6, \<lparr>ep_epoll = \<lparr>epoll_fd = 3, waiter = True\<rparr>,
      peers = [IO_fields [] 0 0 new_TLS]\<rparr>), tr)" and tr: "receives tr = 1" "open_after [] tr = []"
    using reuse_main by blast
  then have "client_init reuse_env (Inr (reuse_client [IO_fields [] 0 0 new_TLS] [] tr))"
    by (auto simp: client_init_def reuse_client_def new_queue_def)
  with tr show ?thesis unfolding reuse_reaches_def by (blast intro: reachable_init)
qed

lemma reuse_message:
  assumes "reuse_reaches ps ls k os" and "k \<in> {1, 2, 3}"
  shows "reuse_reaches ps (ls @ [reuse_line k]) (Suc k) os"
proof -
  obtain tr where r: "reachable (client_init reuse_env) (client_step reuse_env) (Inr (reuse_client ps ls tr))"
    and k: "receives tr = k" and os: "open_after [] tr = os" using assms(1) unfolding reuse_reaches_def by blast
  obtain tr' where n: "new_msg_queue reuse_env 6 \<lparr>que = ls\<rparr> tr = (Inr \<lparr>que = ls @ [reuse_line k]\<rparr>, tr')"
    and tr': "receives tr' = Suc k" "open_after [] tr' = os"
    using assms(2) k os
    by (auto simp: new_msg_queue_def sys_eq reuse_env_def Let_def push_def reuse_line_def open_after_append)
  have "client_step reuse_env (Inr (reuse_client ps ls tr)) (Inr (reuse_client ps (ls @ [reuse_line k]) tr'))"
    using client_step.message[of reuse_env "reuse_client ps ls tr" _ tr'] n by (fastforce simp: reuse_client_def)
  from reachable_step[OF r this] tr' show ?thesis unfolding reuse_reaches_def by blast
qed

lemma reuse_stdin:
  assumes "reuse_reaches ps (l # ls) k os"
    and "\<And>tr. interpretRequest reuse_env 0 l \<lparr>ep_epoll = \<lparr>epoll_fd = 3, waiter = True\<rparr>, peers = ps\<rparr> tr =
      (Inr \<lparr>ep_epoll = \<lparr>epoll_fd = 3, waiter = True\<rparr>, peers = ps'\<rparr>, tr)"
  shows "reuse_reaches ps' ls k os"
proof -
  obtain tr where r: "reachable (client_init reuse_env) (client_step reuse_env) (Inr (reuse_client ps (l # ls) tr))"
    and k: "receives tr = k" "open_after [] tr = os" using assms(1) unfolding reuse_reaches_def by blast
  have "thread_step reuse_env (Inr (reuse_client ps (l # ls) tr)) (Inr (reuse_client ps' ls tr))"
    using thread_step.stdin[of "reuse_client ps (l # ls) tr" l "\<lparr>que = ls\<rparr>" reuse_env 0] assms(2)[of tr]
    by (fastforce simp: reuse_client_def pop_def)
  from reachable_step[OF r client_step.thread[OF this]] k show ?thesis unfolding reuse_reaches_def by blast
qed

lemma reuse_peer:
  assumes "reuse_reaches (ps @ p # qs) ls k os"
    and "\<And>tr. receives tr = k \<Longrightarrow> open_after [] tr = os \<Longrightarrow>
      \<exists>tr'. threadFunc reuse_env (appendNotificationNode reuse_env
          \<lparr>ep_epoll = \<lparr>epoll_fd = 3, waiter = True\<rparr>, peers = ps @ p # qs\<rparr>) p tr = Some (p', tr') \<and>
        receives tr' = k \<and> open_after [] tr' = os'"
  shows "reuse_reaches (ps @ p' # qs) ls k os'"
proof -
  obtain tr where r: "reachable (client_init reuse_env) (client_step reuse_env)
      (Inr (reuse_client (ps @ p # qs) ls tr))"
    and k: "receives tr = k" "open_after [] tr = os" using assms(1) unfolding reuse_reaches_def by blast
  from assms(2)[OF k] obtain tr' where t: "threadFunc reuse_env (appendNotificationNode reuse_env
      \<lparr>ep_epoll = \<lparr>epoll_fd = 3, waiter = True\<rparr>, peers = ps @ p # qs\<rparr>) p tr = Some (p', tr')"
    and tr': "receives tr' = k" "open_after [] tr' = os'" by blast
  have "thread_step reuse_env (Inr (reuse_client (ps @ p # qs) ls tr)) (Inr (reuse_client (ps @ p' # qs) ls tr'))"
    using thread_step.peer[of "reuse_client (ps @ p # qs) ls tr" ps p qs reuse_env p' tr'] t
    by (simp add: reuse_client_def)
  from reachable_step[OF r client_step.thread[OF this]] tr' show ?thesis unfolding reuse_reaches_def by blast
qed

text \<open>The peers of the run: the first one with the first address, the second one with the second.\<close>

definition first_peer :: "query list \<Rightarrow> servant \<Rightarrow> int \<Rightarrow> IO" where
  "first_peer q s fd = (IO_fields [] 0 0 new_TLS)\<lparr>peer_ip := ''1.1.1.1'', peer_port := 80, peer_fd := fd,
     peer_que := \<lparr>que = q\<rparr>, servant := s\<rparr>"

definition second_peer :: "query list \<Rightarrow> servant \<Rightarrow> int \<Rightarrow> IO" where
  "second_peer q s fd = (IO_fields [] 0 0 new_TLS)\<lparr>peer_ip := ''2.2.2.2'', peer_port := 80,
     peer_fd := fd, peer_que := \<lparr>que = q\<rparr>, servant := s\<rparr>"

lemmas reuse_peers = first_peer_def second_peer_def fresh

lemma reuse_line_arguments:
  "interpret_stream (reuse_line (Suc 0)) no_arguments = Inr (Some (no_arguments\<lparr>arg_ip := ''1.1.1.1'', arg_port := 80\<rparr>))"
  "interpret_stream (reuse_line 2) no_arguments = Inr (Some (no_arguments\<lparr>notification := READ\<rparr>))"
  "interpret_stream (reuse_line 3) no_arguments = Inr (Some (no_arguments\<lparr>arg_ip := ''2.2.2.2'', arg_port := 80\<rparr>))"
  by (simp_all add: reuse_line_def interpret_stream.simps next_word_def is_space_def validateAddrTCP_def
      tokens_def parse_port_def parse_octet_def from_chars_unsigned_def is_digit_def digit_val_def
      no_arguments_def)

lemma reuse_dispatch:
  "interpretRequest e j (reuse_line (Suc 0)) ep tr = dispatch e j (no_arguments\<lparr>arg_ip := ''1.1.1.1'', arg_port := 80\<rparr>) ep tr"
  "interpretRequest e j (reuse_line 2) ep tr = dispatch e j (no_arguments\<lparr>notification := READ\<rparr>) ep tr"
  "interpretRequest e j (reuse_line 3) ep tr = dispatch e j (no_arguments\<lparr>arg_ip := ''2.2.2.2'', arg_port := 80\<rparr>) ep tr"
  by (simp_all add: interpretRequest_def reuse_line_arguments)

lemmas reuse_request = reuse_dispatch dispatch_def offer.simps request_def
  request_matches_def assign_master_def no_arguments_def bot_req_def IO_new_plain push_def

lemma reuse_requests:
  "reuse_reaches [first_peer [(CONNECT, [])] Waiting CLOSED, second_peer [(CONNECT, [])] Waiting CLOSED] [] 4 []"
proof -
  from reuse_message[OF reuse_message[OF reuse_message[OF reuse_start]]]
  have "reuse_reaches [IO_fields [] 0 0 new_TLS] [reuse_line 1, reuse_line 2, reuse_line 3] 4 []"
    by (simp add: eval_nat_numeral)
  from reuse_stdin[OF this, of "[first_peer [(CONNECT, [])] Waiting CLOSED]"]
  have "reuse_reaches [first_peer [(CONNECT, [])] Waiting CLOSED] [reuse_line 2, reuse_line 3] 4 []"
    by (simp add: reuse_request reuse_peers)
  from reuse_stdin[OF this, of "[first_peer [(CONNECT, [])] Waiting CLOSED, IO_fields [] 0 0 new_TLS]"]
  have "reuse_reaches [first_peer [(CONNECT, [])] Waiting CLOSED, IO_fields [] 0 0 new_TLS] [reuse_line 3] 4 []"
    by (simp add: reuse_request reuse_peers)
  from reuse_stdin[OF this, of "[first_peer [(CONNECT, [])] Waiting CLOSED, second_peer [(CONNECT, [])] Waiting CLOSED]"]
  show ?thesis by (simp add: reuse_request reuse_peers)
qed

lemmas reuse_connect = threadFunc_def serve_def pop_def connecting_round_def IO_connect_def connectTCP_def
  try_addresses.simps try_address_def use_socket_def bind_local_def start_connect_def setNonBlock_def
  notifyManager_def appendNotificationNode_run sys_eq reuse_env_def reuse_peers Let_def open_after_append

lemma reuse_first_refused:
  assumes "reuse_reaches [first_peer [(CONNECT, [])] Waiting CLOSED, p] ls k []"
  shows "reuse_reaches [first_peer [] Connecting 5, p] ls k []"
proof -
  from reuse_peer[of "[]" "first_peer [(CONNECT, [])] Waiting CLOSED" "[p]" ls k "[]" "first_peer [] Connecting CLOSED" "[]"] assms
  have "reuse_reaches [first_peer [] Connecting CLOSED, p] ls k []" by (simp add: reuse_connect)
  with reuse_peer[of "[]" "first_peer [] Connecting CLOSED" "[p]" ls k "[]" "first_peer [] Connecting 5" "[]"]
  show ?thesis by (simp add: reuse_connect)
qed

lemma reuse_second_connects:
  assumes "reuse_reaches [p, second_peer [(CONNECT, [])] Waiting CLOSED] ls k []"
  shows "reuse_reaches [p, second_peer [] Connecting 5] ls k [5]"
proof -
  from reuse_peer[of "[p]" "second_peer [(CONNECT, [])] Waiting CLOSED" "[]" ls k "[]" "second_peer [] Connecting CLOSED" "[]"] assms
  have "reuse_reaches [p, second_peer [] Connecting CLOSED] ls k []" by (simp add: reuse_connect)
  with reuse_peer[of "[p]" "second_peer [] Connecting CLOSED" "[]" ls k "[]" "second_peer [] Connecting 5" "[5]"]
  show ?thesis by (simp add: reuse_connect)
qed

lemma reuse_shared:
  "reuse_reaches [first_peer [] Connecting 5, second_peer [] Connecting 5] [] 4 [5]"
  by (rule reuse_second_connects[OF reuse_first_refused[OF reuse_requests]])

text \<open>C39: a descriptor can belong to two peers: a peer whose server refused the connection keeps the
  number of the socket it closed; the kernel gives that number to the next socket, and the peer
  that opened it holds it as well. There are runs of the program, with nothing but ordinary
  answers of the system, in which two peers with different addresses hold the one socket that is
  open. A request or an event for that descriptor then goes to the first of them.\<close>

theorem descriptor_shared_by_two_peers:
  "\<exists>e c p q. reachable (client_init e) (client_step e) (Inr c) \<and> peers (cl_end_point c) = [p, q] \<and>
    address p \<noteq> address q \<and> peer_fd p = 5 \<and> peer_fd q = 5 \<and> open_after [] (cl_trace c) = [5]"
proof -
  from reuse_shared obtain tr
    where "reachable (client_init reuse_env) (client_step reuse_env)
        (Inr (reuse_client [first_peer [] Connecting 5, second_peer [] Connecting 5] [] tr))"
      and "open_after [] tr = [5]" unfolding reuse_reaches_def by blast
  moreover have "address (first_peer [] Connecting 5) \<noteq> address (second_peer [] Connecting 5)"
    "peer_fd (first_peer [] Connecting 5) = 5" "peer_fd (second_peer [] Connecting 5) = 5"
    by (simp_all add: reuse_peers address_def)
  ultimately show ?thesis
    by (intro exI[of _ reuse_env] exI[of _ "reuse_client [first_peer [] Connecting 5, second_peer [] Connecting 5] [] tr"]
      exI[of _ "first_peer [] Connecting 5"] exI[of _ "second_peer [] Connecting 5"]) (simp add: reuse_client_def)
qed

section \<open>Instances\<close>

theorem no_socket_leaked_witness:
  "\<exists>c. reachable (client_init reuse_env) (client_step reuse_env) (Inr c) \<and>
    open_after [] (cl_trace c) = [5] \<and> {#5#} \<subseteq># held_fds (peers (cl_end_point c))"
proof -
  have f: "setfl_works reuse_env" by (simp add: setfl_works_def reuse_env_def)
  obtain c where c: "reachable (client_init reuse_env) (client_step reuse_env) (Inr c)"
    "open_after [] (cl_trace c) = [5]"
    using reuse_shared unfolding reuse_reaches_def by (auto simp: reuse_client_def)
  from no_socket_leaked[OF f c(1)] c show ?thesis by auto
qed

theorem connected_peers_are_watched_witness:
  "\<exists>c. reachable (client_init reuse_env) (client_step reuse_env) (Inr c) \<and>
    Epoll_ctl_add 3 5 (EPOLLIN OR EPOLLET OR EPOLLRDHUP) \<in> fst ` set (cl_trace c)"
proof -
  obtain tr where r: "reachable (client_init reuse_env) (client_step reuse_env)
      (Inr (reuse_client [first_peer [] Connecting 5, second_peer [] Connecting 5] [] tr))"
    using reuse_shared unfolding reuse_reaches_def by blast
  from connected_peers_are_watched[OF r, of "second_peer [] Connecting 5"] r show ?thesis
    by (intro exI[of _ "reuse_client [first_peer [] Connecting 5, second_peer [] Connecting 5] [] tr"])
      (simp add: reuse_client_def reuse_peers)
qed

end
