(* ===== verification/Message_Queue.thy ===== *)
theory Message_Queue
  imports Client_Main "HOL-Library.Multiset" "HOL-Library.Sublist"
begin

text \<open>
  The way of command lines from the senders into the end point's queue, with everybody at work
  at once: senders, the loop of \<^verbatim>\<open>main\<close> that empties the message queue, any number of handlers
  (every notification starts \<^verbatim>\<open>new_msg_queue\<close> in a thread of its own) and the end point.
  Client_Main translates the handler as one run of calls; here it is cut where others can act.
  The message queue itself belongs to the kernel: its operations are a parameter, with the
  documented behaviour as the predicate \<open>posix_mq\<close>.
\<close>

section \<open>The kernel's message queue\<close>

text \<open>
  \<open>waiting\<close> and \<open>registered\<close> look at the state. \<open>deliver\<close> is an accepted \<^verbatim>\<open>mq_send\<close> and tells
  whether the notification fires, \<open>register\<close> is \<^verbatim>\<open>mq_notify\<close>, \<open>take_message\<close> is
  \<^verbatim>\<open>mq_receive\<close> on a descriptor opened with \<^verbatim>\<open>O_NONBLOCK\<close>.
\<close>

record 'k mq_ops =
  waiting :: "'k \<Rightarrow> string list"
  registered :: "'k \<Rightarrow> bool"
  deliver :: "'k \<Rightarrow> string \<Rightarrow> 'k \<times> bool"
  register :: "'k \<Rightarrow> 'k"
  take_message :: "'k \<Rightarrow> (string \<times> 'k) option"

text \<open>
  From mq_overview(7) and mq_notify(3). Messages of one priority (the program uses 0) leave in the
  order in which they came. A notification is delivered when a message arrives at a queue that was
  empty, to the process that is registered, and removes the registration; it is not delivered for
  a queue that already holds messages when somebody registers.
\<close>

definition posix_mq :: "'k mq_ops \<Rightarrow> bool" where
  "posix_mq K \<longleftrightarrow>
     (\<forall>k m. let (k', fire) = deliver K k m
        in waiting K k' = waiting K k @ [m] \<and> fire = (registered K k \<and> waiting K k = []) \<and>
           registered K k' = (registered K k \<and> \<not> fire)) \<and>
     (\<forall>k. waiting K (register K k) = waiting K k \<and> registered K (register K k)) \<and>
     (\<forall>k. case take_message K k of
        None \<Rightarrow> waiting K k = []
      | Some (m, k') \<Rightarrow> waiting K k = m # waiting K k' \<and> registered K k' = registered K k)"

section \<open>Senders, handlers, the loop of main, the end point\<close>

text \<open>
  Where a handler is: started, past \<^verbatim>\<open>mq_notify\<close>, past \<^verbatim>\<open>mq_receive\<close> with the text it is
  going to push, at its end. \<open>Overrun\<close>: it holds a message that fills its whole buffer and has
  written the terminator behind the buffer.
\<close>

datatype handler_pc = Notified | Reading | Holding string | Overrun string | Finished

text \<open>
  \<open>draining\<close>: \<^verbatim>\<open>main\<close> is in the loop that empties the message queue. \<open>broken\<close>: a handler wrote
  its terminator outside its buffer, which is undefined; the model stops there. \<open>sent\<close>, \<open>drained\<close> and \<open>taken\<close> record what was accepted by
  the kernel, thrown away by the loop and popped by the end point; the program does not keep them.
\<close>

record 'k mq_state =
  kern :: 'k
  draining :: bool
  handlers :: "handler_pc list"
  line_queue :: "string ThreadSafeQueue"
  broken :: bool
  sent :: "string list"
  drained :: "string list"
  taken :: "string list"

definition at_handler :: "'k mq_state \<Rightarrow> nat \<Rightarrow> handler_pc \<Rightarrow> bool" where
  "at_handler s t p \<longleftrightarrow> \<not> broken s \<and> t < length (handlers s) \<and> handlers s ! t = p"

definition put_handler :: "nat \<Rightarrow> handler_pc \<Rightarrow> 'k mq_state \<Rightarrow> 'k mq_state" where
  "put_handler t p s = s\<lparr>handlers := (handlers s)[t := p]\<rparr>"

text \<open>The text that \<^verbatim>\<open>queue.push(buf)\<close> makes of a message: up to the first zero byte.\<close>

definition c_text :: "string \<Rightarrow> string" where
  "c_text m = takeWhile (\<lambda>c. c \<noteq> CHR 0x00) m"

inductive mq_step :: "'k mq_ops \<Rightarrow> nat \<Rightarrow> 'k mq_state \<Rightarrow> 'k mq_state \<Rightarrow> bool" for K msgsize where
  send: "\<not> broken s \<Longrightarrow> length m \<le> msgsize \<Longrightarrow> deliver K (kern s) m = (k', fire) \<Longrightarrow>
    mq_step K msgsize s (s\<lparr>kern := k', sent := sent s @ [m],
      handlers := handlers s @ (if fire then [Notified] else [])\<rparr>)"
| drain_one: "\<not> broken s \<Longrightarrow> draining s \<Longrightarrow> take_message K (kern s) = Some (m, k') \<Longrightarrow>
    mq_step K msgsize s (s\<lparr>kern := k', drained := drained s @ [m]\<rparr>)"
| drain_end: "\<not> broken s \<Longrightarrow> draining s \<Longrightarrow> take_message K (kern s) = None \<Longrightarrow>
    mq_step K msgsize s (s\<lparr>draining := False\<rparr>)"
| reregister: "at_handler s t Notified \<Longrightarrow>
    mq_step K msgsize s (put_handler t Reading (s\<lparr>kern := register K (kern s)\<rparr>))"
| receive: "at_handler s t Reading \<Longrightarrow> take_message K (kern s) = Some (m, k') \<Longrightarrow>
    length m < msgsize \<Longrightarrow>
    mq_step K msgsize s (put_handler t (Holding (c_text m)) (s\<lparr>kern := k'\<rparr>))"
| receive_full: "at_handler s t Reading \<Longrightarrow> take_message K (kern s) = Some (m, k') \<Longrightarrow>
    msgsize \<le> length m \<Longrightarrow>
    mq_step K msgsize s (put_handler t (Overrun (c_text m)) (s\<lparr>kern := k', broken := True\<rparr>))"
| receive_none: "at_handler s t Reading \<Longrightarrow> take_message K (kern s) = None \<Longrightarrow>
    mq_step K msgsize s (s\<lparr>broken := True\<rparr>)"
| push_line: "at_handler s t (Holding v) \<Longrightarrow>
    mq_step K msgsize s (put_handler t Finished (s\<lparr>line_queue := push v (line_queue s)\<rparr>))"
| pop_line: "\<not> broken s \<Longrightarrow> pop (line_queue s) = Some (v, q) \<Longrightarrow>
    mq_step K msgsize s (s\<lparr>line_queue := q, taken := taken s @ [v]\<rparr>)"

text \<open>
  After the \<^verbatim>\<open>mq_notify\<close> of \<^verbatim>\<open>main\<close>: no handler yet, the messages of former runs still in
  the kernel's queue.
\<close>

definition mq_start :: "'k mq_ops \<Rightarrow> 'k mq_state \<Rightarrow> bool" where
  "mq_start K s \<longleftrightarrow> registered K (kern s) \<and> draining s \<and> handlers s = [] \<and>
     line_queue s = new_queue \<and> \<not> broken s \<and> sent s = waiting K (kern s) \<and> drained s = [] \<and> taken s = []"

text \<open>At rest: the loop is over, the queue empty, the notification armed, no handler before its
  \<^verbatim>\<open>mq_receive\<close>.\<close>

fun pending :: "handler_pc \<Rightarrow> bool" where
  "pending Notified = True"
| "pending Reading = True"
| "pending _ = False"

definition mq_quiet :: "'k mq_ops \<Rightarrow> 'k mq_state \<Rightarrow> bool" where
  "mq_quiet K s \<longleftrightarrow> registered K (kern s) \<and> waiting K (kern s) = [] \<and> \<not> draining s \<and> \<not> broken s \<and>
     (\<forall>p \<in> set (handlers s). \<not> pending p)"


text \<open>The laws as rules.\<close>

lemma deliver_law:
  "posix_mq K \<Longrightarrow> deliver K k m = (k', fire) \<Longrightarrow>
    waiting K k' = waiting K k @ [m] \<and> fire = (registered K k \<and> waiting K k = []) \<and>
    registered K k' = (registered K k \<and> \<not> fire)"
  by (auto simp: posix_mq_def Let_def dest: spec[of _ k] split: prod.splits)

lemma register_law [simp]:
  "posix_mq K \<Longrightarrow> waiting K (register K k) = waiting K k"
  "posix_mq K \<Longrightarrow> registered K (register K k)"
  by (simp_all add: posix_mq_def)

lemma take_Some_law:
  "posix_mq K \<Longrightarrow> take_message K k = Some (m, k') \<Longrightarrow>
    waiting K k = m # waiting K k' \<and> registered K k' = registered K k"
  unfolding posix_mq_def by (auto dest!: spec[of _ k] split: option.splits)

lemma take_None_law: "posix_mq K \<Longrightarrow> take_message K k = None \<longleftrightarrow> waiting K k = []"
  unfolding posix_mq_def by (auto dest!: spec[of _ k] split: option.splits)

lemmas mq_laws = deliver_law take_Some_law take_None_law

lemmas mq_defs = at_handler_def put_handler_def

text \<open>Runs, one step at a time.\<close>

lemmas mq_last = r_into_rtranclp[of "mq_step K n" for K n]
lemmas mq_then = converse_rtranclp_into_rtranclp[of "mq_step K n" for K n]

section \<open>A kernel\<close>

text \<open>A message queue as a list and a flag: it has the documented behaviour.\<close>

definition list_mq :: "(string list \<times> bool) mq_ops" where
  "list_mq =
     \<lparr>waiting = fst, registered = snd,
      deliver = (\<lambda>(ms, r) m. ((ms @ [m], r \<and> ms \<noteq> []), r \<and> ms = [])),
      register = (\<lambda>(ms, r). (ms, True)),
      take_message = (\<lambda>(ms, r). case ms of [] \<Rightarrow> None | m # ms' \<Rightarrow> Some (m, (ms', r)))\<rparr>"

lemma list_mq_posix: "posix_mq list_mq"
  by (auto simp: posix_mq_def list_mq_def split: list.split)

section \<open>Nothing is lost and nothing is made up\<close>

fun held_line :: "handler_pc \<Rightarrow> string list" where
  "held_line (Holding v) = [v]"
| "held_line (Overrun v) = [v]"
| "held_line _ = []"

definition held :: "handler_pc list \<Rightarrow> string multiset" where
  "held hs = mset (concat (map held_line hs))"

lemma held_simps [simp]:
  "held [] = {#}" "held (h # hs) = mset (held_line h) + held hs" "held (hs @ hs') = held hs + held hs'"
  by (simp_all add: held_def)

lemma held_update:
  "t < length hs \<Longrightarrow> held (hs[t := p]) + mset (held_line (hs ! t)) = held hs + mset (held_line p)"
proof (induction hs arbitrary: t)
  case (Cons h hs)
  then show ?case by (cases t) (auto simp: ac_simps)
qed simp

text \<open>The lines in the kernel, those \<^verbatim>\<open>main\<close> threw away, those in a handler's hands, those in
  the program's queue and those popped from it.\<close>

definition accounted :: "'k mq_ops \<Rightarrow> 'k mq_state \<Rightarrow> string multiset" where
  "accounted K s = mset (map c_text (waiting K (kern s))) + mset (map c_text (drained s)) + held (handlers s) +
     mset (que (line_queue s)) + mset (taken s)"

lemma accounted_step:
  assumes K: "posix_mq K" and "mq_step K n s s'"
  shows "accounted K s' + mset (map c_text (sent s)) = accounted K s + mset (map c_text (sent s'))"
  using assms(2)
proof cases
  case (send m k' fire)
  with deliver_law[OF K send(4)] show ?thesis by (simp add: accounted_def)
next
  case (drain_one m k')
  with take_Some_law[OF K drain_one(4)] show ?thesis by (simp add: accounted_def)
next
  case (reregister t)
  with held_update[of t "handlers s" Reading] K show ?thesis
    by (simp add: accounted_def mq_defs)
next
  case (receive t m k')
  with held_update[of t "handlers s" "Holding (c_text m)"] take_Some_law[OF K receive(3)]
  show ?thesis by (simp add: accounted_def mq_defs)
next
  case (receive_full t m k')
  with held_update[of t "handlers s" "Overrun (c_text m)"] take_Some_law[OF K receive_full(3)]
  show ?thesis by (simp add: accounted_def mq_defs)
next
  case (push_line t v)
  with held_update[of t "handlers s" Finished] show ?thesis
    by (auto simp: accounted_def mq_defs tsq.queue_laws)
next
  case (pop_line v q)
  with tsq.deq_Some[OF pop_line(3)] show ?thesis by (simp add: accounted_def)
qed (simp_all add: accounted_def)

lemma accounted_steps:
  assumes "posix_mq K" and "(mq_step K n)\<^sup>*\<^sup>* s s'" and "mset (map c_text (sent s)) = accounted K s"
  shows "mset (map c_text (sent s')) = accounted K s'"
  using assms(2,3)
proof (induction rule: rtranclp_induct)
  case (step y z)
  with accounted_step[OF assms(1) step(2)] show ?case by simp
qed simp

lemma accounted_start: "mq_start K s \<Longrightarrow> mset (map c_text (sent s)) = accounted K s"
  by (simp add: mq_start_def accounted_def new_queue_def)

text \<open>C11: no command line is lost, doubled or changed on its way, whatever the order in which senders,
  handlers, the emptying loop and the end point act: at every moment the lines accepted by the
  kernel are, counted with multiplicity, those still waiting, those main threw away, those in a
  handler's hands, those in the queue and those the end point took. This holds up to and
  including the moment in which a handler writes outside its buffer; what follows is undefined.\<close>

theorem command_lines_conserved:
  assumes "posix_mq K" and "mq_start K s0" and "(mq_step K n)\<^sup>*\<^sup>* s0 s"
  shows "mset (map c_text (sent s)) =
    mset (map c_text (waiting K (kern s))) + mset (map c_text (drained s)) + held (handlers s) +
    mset (que (line_queue s)) + mset (taken s)"
  using accounted_steps[OF assms(1,3) accounted_start[OF assms(2)]] by (simp add: accounted_def)

section \<open>A handler finds its message\<close>

text \<open>
  Started from rest, there are never more handlers on their way to \<^verbatim>\<open>mq_receive\<close> than
  messages, and the notification is armed exactly when no handler is about to arm it.
\<close>

definition mq_matched :: "'k mq_ops \<Rightarrow> 'k mq_state \<Rightarrow> bool" where
  "mq_matched K s \<longleftrightarrow> \<not> draining s \<and>
     (\<not> broken s \<longrightarrow> count_pc pending (handlers s) \<le> length (waiting K (kern s)) \<and>
       count_pc (\<lambda>p. p = Notified) (handlers s) = (if registered K (kern s) then 0 else 1))"

lemma count_pc_append [simp]: "count_pc P (xs @ ys) = count_pc P xs + count_pc P ys"
  by (simp add: count_pc_def)

lemma count_pc_none: "count_pc P xs = 0 \<longleftrightarrow> (\<forall>x \<in> set xs. \<not> P x)"
  by (auto simp: count_pc_def filter_empty_conv)

lemma quiet_matched: "mq_quiet K s \<Longrightarrow> mq_matched K s"
proof -
  assume q: "mq_quiet K s"
  then have "count_pc pending (handlers s) = 0" "count_pc (\<lambda>p. p = Notified) (handlers s) = 0"
    unfolding count_pc_none mq_quiet_def by auto
  with q show ?thesis by (simp add: mq_matched_def mq_quiet_def)
qed

lemma matched_step:
  assumes K: "posix_mq K" and "mq_matched K s" and "mq_step K n s s'"
  shows "mq_matched K s'"
  using assms(3,2)
proof cases
  case (send m k' fire)
  have "count_pc pending [Notified] = 1" "count_pc (\<lambda>p. p = Notified) [Notified] = 1"
    "count_pc pending [] = 0" "count_pc (\<lambda>p. p = Notified) [] = 0"
    by (simp_all add: count_pc_def)
  with send assms(2) deliver_law[OF K send(4)] show ?thesis
    by (auto simp: mq_matched_def split: if_splits)
next
  case (reregister t)
  then have t: "t < length (handlers s)" "handlers s ! t = Notified" "\<not> broken s"
    by (simp_all add: mq_defs)
  from t count_pc_update[OF t(1), of pending Reading] count_pc_update[OF t(1), of "\<lambda>p. p = Notified" Reading]
    assms(2) K reregister(1) show ?thesis
    by (auto simp: mq_matched_def mq_defs split: if_splits)
next
  case (receive t m k')
  then have t: "t < length (handlers s)" "handlers s ! t = Reading" "\<not> broken s"
    by (simp_all add: mq_defs)
  from t count_pc_update[OF t(1), of pending "Holding (c_text m)"]
    count_pc_update[OF t(1), of "\<lambda>p. p = Notified" "Holding (c_text m)"]
    assms(2) take_Some_law[OF K receive(3)] receive(1) show ?thesis
    by (auto simp: mq_matched_def mq_defs split: if_splits)
next
  case (push_line t v)
  then have t: "t < length (handlers s)" "handlers s ! t = Holding v" "\<not> broken s"
    by (simp_all add: mq_defs)
  from t count_pc_update[OF t(1), of pending Finished]
    count_pc_update[OF t(1), of "\<lambda>p. p = Notified" Finished] assms(2) push_line(1) show ?thesis
    by (auto simp: mq_matched_def mq_defs split: if_splits)
qed (simp_all add: mq_matched_def put_handler_def)

lemma matched_steps:
  assumes "posix_mq K" and "mq_quiet K s0" and "(mq_step K n)\<^sup>*\<^sup>* s0 s"
  shows "mq_matched K s"
  using assms(3)
  by (induction rule: rtranclp_induct)
    (auto intro: quiet_matched[OF assms(2)] matched_step[OF assms(1)])

text \<open>C16: a handler never comes for nothing: from a moment at which the program is at rest (the
  emptying loop over, the message queue empty, the notification armed, no handler before its
  \<^verbatim>\<open>mq_receive\<close>), a handler that calls \<^verbatim>\<open>mq_receive\<close> finds a message, so it never writes its terminator in
  front of the buffer, however fast lines arrive and however handlers overtake each other.\<close>

theorem handler_finds_message:
  assumes "posix_mq K" and "mq_quiet K s0" and "(mq_step K n)\<^sup>*\<^sup>* s0 s" and "at_handler s t Reading"
  shows "take_message K (kern s) \<noteq> None"
proof -
  have "0 < count_pc pending (handlers s)"
    using assms(4) unfolding count_pc_positive by (auto simp: mq_defs intro!: exI[of _ t])
  moreover have "count_pc pending (handlers s) \<le> length (waiting K (kern s))"
    using matched_steps[OF assms(1-3)] assms(4) by (simp add: mq_matched_def mq_defs)
  ultimately show ?thesis by (auto simp: take_None_law[OF assms(1)])
qed

section \<open>Messages that nobody fetches\<close>

text \<open>Messages wait, and no handler is on its way to them.\<close>

definition mq_stalled :: "'k mq_ops \<Rightarrow> string list \<Rightarrow> 'k mq_state \<Rightarrow> bool" where
  "mq_stalled K ms s \<longleftrightarrow> ms \<noteq> [] \<and> prefix ms (waiting K (kern s)) \<and> \<not> draining s \<and>
     (\<forall>p \<in> set (handlers s). \<not> pending p)"

lemma stalled_step:
  assumes K: "posix_mq K" and st: "mq_stalled K ms s" and "mq_step K n s s'"
  shows "mq_stalled K ms s'"
proof -
  have no: "\<not> at_handler s t Notified" "\<not> at_handler s t Reading" for t
    using st by (auto simp: mq_stalled_def mq_defs dest!: nth_mem)
  from assms(3) show ?thesis
  proof cases
    case (send m k' fire)
    with st deliver_law[OF K send(4)] show ?thesis by (auto simp: mq_stalled_def)
  next
    case (push_line t v)
    with st show ?thesis
      by (auto simp: mq_stalled_def mq_defs dest!: subsetD[OF set_update_subset_insert])
  qed (use st no in \<open>auto simp: mq_stalled_def\<close>)
qed

definition never_received :: "'k mq_ops \<Rightarrow> nat \<Rightarrow> string list \<Rightarrow> 'k mq_state \<Rightarrow> bool" where
  "never_received K n ms s \<longleftrightarrow> (\<forall>s'. (mq_step K n)\<^sup>*\<^sup>* s s' \<longrightarrow> prefix ms (waiting K (kern s')))"

lemma stalled_stays:
  assumes "posix_mq K" and "mq_stalled K ms s"
  shows "never_received K n ms s"
proof -
  have "mq_stalled K ms s'" if "(mq_step K n)\<^sup>*\<^sup>* s s'" for s'
    using that assms(2)
    by (induction rule: rtranclp_induct) (auto intro: stalled_step[OF assms(1)])
  then show ?thesis by (auto simp: never_received_def mq_stalled_def)
qed

text \<open>From rest, a second line that arrives between the handler's \<^verbatim>\<open>mq_notify\<close> and its
  \<^verbatim>\<open>mq_receive\<close> is stuck: only the first of the two gets into the program's queue.\<close>

lemma second_line_stuck:
  assumes K: "posix_mq K" and q: "mq_quiet K s0" and m: "length m1 < n" "length m2 \<le> n"
  shows "\<exists>s. (mq_step K n)\<^sup>*\<^sup>* s0 s \<and> sent s = sent s0 @ [m1, m2] \<and>
    que (line_queue s) = que (line_queue s0) @ [c_text m1] \<and> never_received K n [m2] s"
proof -
  let ?t = "length (handlers s0)"
  obtain k1 fire where d1: "deliver K (kern s0) m1 = (k1, fire)" by (cases "deliver K (kern s0) m1")
  with q deliver_law[OF K d1] have k1: "fire" "waiting K k1 = [m1]" by (simp_all add: mq_quiet_def)
  let ?s1 = "s0\<lparr>kern := k1, sent := sent s0 @ [m1], handlers := handlers s0 @ [Notified]\<rparr>"
  have 1: "mq_step K n s0 ?s1" using mq_step.send[of s0 m1 n K k1 fire] q m d1 k1 by (simp add: mq_quiet_def)
  let ?s2 = "put_handler ?t Reading (?s1\<lparr>kern := register K k1\<rparr>)"
  have 2: "mq_step K n ?s1 ?s2"
    using mq_step.reregister[of ?s1 ?t K n] q by (simp add: mq_quiet_def at_handler_def)
  obtain k3 fire3 where d3: "deliver K (register K k1) m2 = (k3, fire3)"
    by (cases "deliver K (register K k1) m2")
  with deliver_law[OF K d3] K k1 have k3: "\<not> fire3" "waiting K k3 = [m1, m2]" by simp_all
  let ?s3 = "s0\<lparr>kern := k3, sent := sent s0 @ [m1, m2], handlers := handlers s0 @ [Reading]\<rparr>"
  have 3: "mq_step K n ?s2 ?s3"
    using mq_step.send[of ?s2 m2 n K k3 fire3] q m d3 k3 by (simp add: mq_quiet_def put_handler_def)
  obtain m k4 where d4: "take_message K k3 = Some (m, k4)"
    using take_None_law[OF K, of k3] k3 by (cases "take_message K k3") auto
  with take_Some_law[OF K d4] k3 have k4: "m = m1" "waiting K k4 = [m2]" by simp_all
  let ?s4 = "put_handler ?t (Holding (c_text m1)) (?s3\<lparr>kern := k4\<rparr>)"
  have 4: "mq_step K n ?s3 ?s4"
    using mq_step.receive[of ?s3 ?t K m1 k4 n] q m d4 k4 by (simp add: mq_quiet_def mq_defs)
  let ?s5 = "put_handler ?t Finished (?s4\<lparr>line_queue := push (c_text m1) (line_queue s0)\<rparr>)"
  have 5: "mq_step K n ?s4 ?s5"
    using mq_step.push_line[of ?s4 ?t "c_text m1" K n] q by (simp add: mq_quiet_def mq_defs)
  have "mq_stalled K [m2] ?s5"
    using q k4 by (simp add: mq_stalled_def mq_quiet_def put_handler_def)
  from stalled_stays[OF K this] have "never_received K n [m2] ?s5" .
  moreover have "(mq_step K n)\<^sup>*\<^sup>* s0 ?s5"
    by (rule mq_then[OF 1 mq_then[OF 2 mq_then[OF 3 mq_then[OF 4 mq_last[OF 5]]]]])
  ultimately show ?thesis
    by (intro exI[of _ ?s5]) (simp add: put_handler_def tsq.queue_laws)
qed


text \<open>The messages that are behind those for which a handler is on its way.\<close>

definition unclaimed :: "'k mq_ops \<Rightarrow> 'k mq_state \<Rightarrow> string list" where
  "unclaimed K s = drop (count_pc pending (handlers s)) (waiting K (kern s))"

lemma count_pc_put:
  "at_handler s t p \<Longrightarrow> count_pc P (handlers (put_handler t q s')) + (if P p then 1 else 0) =
    count_pc P (handlers s) + (if P q then 1 else 0)" if "handlers s' = handlers s"
  using that count_pc_update[of t "handlers s" P q] by (auto simp: mq_defs)

lemma unclaimed_step:
  assumes K: "posix_mq K" and u: "unclaimed K s \<noteq> []" "\<not> draining s" and step: "mq_step K n s s'"
  shows "\<exists>later. sent s' = sent s @ later \<and> unclaimed K s' = unclaimed K s @ later \<and> \<not> draining s'"
proof -
  have w: "waiting K (kern s) \<noteq> []" "count_pc pending (handlers s) < length (waiting K (kern s))"
    using u(1) by (auto simp: unclaimed_def)
  from step show ?thesis
  proof cases
    case (send m k' fire)
    with deliver_law[OF K send(4)] w u(2) show ?thesis
      by (intro exI[of _ "[m]"]) (auto simp: unclaimed_def)
  next
    case (drain_one m k')
    with u(2) show ?thesis by simp
  next
    case drain_end
    with u(2) show ?thesis by simp
  next
    case (reregister t)
    then have "count_pc pending (handlers s') = count_pc pending (handlers s)"
      using count_pc_put[of "s\<lparr>kern := register K (kern s)\<rparr>" s t Notified pending Reading] by simp
    with reregister(1) K u(2) show ?thesis by (simp add: unclaimed_def put_handler_def)
  next
    case (receive t m k')
    then have c: "Suc (count_pc pending (handlers s')) = count_pc pending (handlers s)"
      using count_pc_put[of "s\<lparr>kern := k'\<rparr>" s t Reading pending "Holding (c_text m)"] by simp
    from receive(1) take_Some_law[OF K receive(3)] u(2) show ?thesis
      unfolding unclaimed_def c[symmetric] by (simp add: put_handler_def)
  next
    case (receive_full t m k')
    then have c: "Suc (count_pc pending (handlers s')) = count_pc pending (handlers s)"
      using count_pc_put[of "s\<lparr>kern := k', broken := True\<rparr>" s t Reading pending "Overrun (c_text m)"] by simp
    from receive_full(1) take_Some_law[OF K receive_full(3)] u(2) show ?thesis
      unfolding unclaimed_def c[symmetric] by (simp add: put_handler_def)
  next
    case (receive_none t)
    with take_None_law[OF K] w(1) show ?thesis by simp
  next
    case (push_line t v)
    then have "count_pc pending (handlers s') = count_pc pending (handlers s)"
      using count_pc_put[of "s\<lparr>line_queue := push v (line_queue s)\<rparr>" s t "Holding v" pending Finished] by simp
    with push_line(1) u(2) show ?thesis by (simp add: unclaimed_def put_handler_def)
  next
    case (pop_line v q)
    with u(2) show ?thesis by (simp add: unclaimed_def)
  qed
qed

text \<open>C17: a line that arrives while a handler is between its \<^verbatim>\<open>mq_notify\<close> and its
  \<^verbatim>\<open>mq_receive\<close> fires no notification, and no handler ever makes up for it: whenever more
  messages wait than handlers are on their way to \<^verbatim>\<open>mq_receive\<close>, the messages in excess, and
  after them, in their order, all messages that are accepted afterwards, stay in the message
  queue in every continuation; the program never receives one of them.\<close>

theorem mq_notification_lost:
  assumes "posix_mq K" and "\<not> draining s" and "count_pc pending (handlers s) < length (waiting K (kern s))"
    and "(mq_step K n)\<^sup>*\<^sup>* s s'"
  shows "\<exists>later. sent s' = sent s @ later \<and>
    drop (count_pc pending (handlers s')) (waiting K (kern s')) =
      drop (count_pc pending (handlers s)) (waiting K (kern s)) @ later"
proof -
  have "\<exists>later. sent s' = sent s @ later \<and> unclaimed K s' = unclaimed K s @ later \<and> \<not> draining s'"
    using assms(4)
  proof (induction rule: rtranclp_induct)
    case base
    with assms(2) show ?case by simp
  next
    case (step y z)
    have "unclaimed K s \<noteq> []" using assms(3) by (simp add: unclaimed_def)
    with step(3) unclaimed_step[OF assms(1) _ _ step(2)] show ?case by fastforce
  qed
  then show ?thesis by (auto simp: unclaimed_def)
qed


section \<open>A message that main throws away\<close>

lemma drain_all:
  assumes K: "posix_mq K"
  shows "draining s \<Longrightarrow> \<not> broken s \<Longrightarrow> \<exists>k d. (mq_step K n)\<^sup>*\<^sup>* s (s\<lparr>kern := k, drained := d\<rparr>) \<and>
    waiting K k = [] \<and> registered K k = registered K (kern s)"
proof (induction "waiting K (kern s)" arbitrary: s)
  case Nil
  then show ?case by (intro exI[of _ "kern s"] exI[of _ "drained s"]) simp
next
  case (Cons m ms)
  obtain x k1 where d: "take_message K (kern s) = Some (x, k1)"
    using take_None_law[OF K, of "kern s"] Cons.hyps(2) by (cases "take_message K (kern s)") auto
  with take_Some_law[OF K d] Cons.hyps(2)
  have k1: "waiting K k1 = ms" "registered K k1 = registered K (kern s)" by simp_all
  let ?s1 = "s\<lparr>kern := k1, drained := drained s @ [x]\<rparr>"
  have 1: "mq_step K n s ?s1" by (rule mq_step.drain_one[OF Cons.prems(2,1) d])
  from Cons.hyps(1)[of ?s1] Cons.prems k1 obtain k e where
    "(mq_step K n)\<^sup>*\<^sup>* ?s1 (s\<lparr>kern := k, drained := e\<rparr>)" "waiting K k = []"
    "registered K k = registered K (kern s)" by auto
  with mq_then[OF 1] show ?case by blast
qed

text \<open>C36: the handler and the emptying loop race at the start: a line that arrives when the loop has
  just emptied the queue fires the notification, the loop throws the line away, and the handler
  that was started for it receives nothing and writes its terminator in front of its buffer.\<close>

theorem start_race_breaks_handler:
  assumes K: "posix_mq K" and st: "mq_start K s0" and m: "length m \<le> n"
  shows "\<exists>s. (mq_step K n)\<^sup>*\<^sup>* s0 s \<and> sent s = sent s0 @ [m] \<and> m \<in> set (drained s) \<and> broken s"
proof -
  from st drain_all[OF K, of s0 n] obtain k d where
    0: "(mq_step K n)\<^sup>*\<^sup>* s0 (s0\<lparr>kern := k, drained := d\<rparr>)" and
    k: "waiting K k = []" "registered K k" by (auto simp: mq_start_def)
  obtain k1 fire where d1: "deliver K k m = (k1, fire)" by (cases "deliver K k m")
  with deliver_law[OF K d1] k have k1: "fire" "waiting K k1 = [m]" by simp_all
  let ?s1 = "s0\<lparr>drained := d, kern := k1, sent := sent s0 @ [m], handlers := [Notified]\<rparr>"
  have 1: "mq_step K n (s0\<lparr>kern := k, drained := d\<rparr>) ?s1"
    using mq_step.send[of "s0\<lparr>kern := k, drained := d\<rparr>" m n K k1 fire] st m d1 k1
    by (simp add: mq_start_def)
  obtain x k2 where d2: "take_message K k1 = Some (x, k2)"
    using take_None_law[OF K, of k1] k1 by (cases "take_message K k1") auto
  with take_Some_law[OF K d2] k1 have k2: "x = m" "waiting K k2 = []" by simp_all
  let ?s2 = "s0\<lparr>sent := sent s0 @ [m], handlers := [Notified], kern := k2, drained := d @ [m]\<rparr>"
  have 2: "mq_step K n ?s1 ?s2"
    using mq_step.drain_one[of ?s1 K m k2 n] st d2 k2 by (simp add: mq_start_def)
  let ?s3 = "put_handler 0 Reading (?s2\<lparr>kern := register K k2\<rparr>)"
  have 3: "mq_step K n ?s2 ?s3"
    using mq_step.reregister[of ?s2 0 K n] st by (simp add: mq_start_def mq_defs)
  let ?s4 = "?s3\<lparr>broken := True\<rparr>"
  have "take_message K (register K k2) = None" using k2 K by (simp add: take_None_law)
  then have 4: "mq_step K n ?s3 ?s4"
    using mq_step.receive_none[of ?s3 0 K n] st by (simp add: mq_start_def mq_defs)
  have "(mq_step K n)\<^sup>*\<^sup>* s0 ?s4"
    by (rule rtranclp_trans[OF 0 mq_then[OF 1 mq_then[OF 2 mq_then[OF 3 mq_last[OF 4]]]]])
  then show ?thesis by (intro exI[of _ ?s4]) (simp add: put_handler_def)
qed

section \<open>One handler on its own\<close>

text \<open>
  The steps of one handler that nobody interrupts do what the handler of Client_Main does in an
  environment that answers its calls from the message queue: this ties the two views together.
\<close>

lemma handler_alone:
  assumes K: "posix_mq K" and h: "at_handler s t Notified"
    and r: "take_message K (register K (kern s)) = Some (m, k')" and n: "length m < n"
    and d: "delivers e mqdes tr m"
  shows "\<exists>s' q. (mq_step K n)\<^sup>*\<^sup>* s s' \<and> at_handler s' t Finished \<and>
    fst (new_msg_queue e mqdes (line_queue s) tr) = Inr q \<and> line_queue s' = q"
proof -
  let ?s1 = "put_handler t Reading (s\<lparr>kern := register K (kern s)\<rparr>)"
  let ?s2 = "put_handler t (Holding (c_text m)) (?s1\<lparr>kern := k'\<rparr>)"
  let ?s3 = "put_handler t Finished (?s2\<lparr>line_queue := push (c_text m) (line_queue ?s2)\<rparr>)"
  have 1: "mq_step K n s ?s1" by (rule mq_step.reregister[OF h])
  have 2: "mq_step K n ?s1 ?s2"
    using h r n by (intro mq_step.receive) (simp_all add: mq_defs)
  have 3: "mq_step K n ?s2 ?s3"
    using h by (intro mq_step.push_line) (simp add: mq_defs)
  have "(mq_step K n)\<^sup>*\<^sup>* s ?s3"
    by (rule mq_then[OF 1 mq_then[OF 2 mq_last[OF 3]]])
  moreover have "fst (new_msg_queue e mqdes (line_queue s) tr) = Inr (push (c_text m) (line_queue s))"
    unfolding c_text_def by (rule new_msg_queue_delivers[OF d])
  ultimately show ?thesis using h
    by (intro exI[of _ ?s3] exI[of _ "push (c_text m) (line_queue s)"]) (simp add: mq_defs)
qed

section \<open>Lines on their way\<close>

text \<open>A step of the transport in which no line is taken by the end point and no handler breaks.\<close>

definition carries :: "'k mq_ops \<Rightarrow> nat \<Rightarrow> 'k mq_state \<Rightarrow> 'k mq_state \<Rightarrow> bool" where
  "carries K n m m' \<longleftrightarrow> mq_step K n m m' \<and> taken m' = taken m \<and> \<not> broken m'"

lemma carries_steps: "(carries K n)\<^sup>*\<^sup>* m m' \<Longrightarrow> (mq_step K n)\<^sup>*\<^sup>* m m'"
  by (induction rule: rtranclp_induct) (auto simp: carries_def intro: rtranclp.rtrancl_into_rtrancl)

text \<open>At an empty queue with the notification armed, a line gets into the hands of a new handler, and
  queue and notification are as before.\<close>

lemma carries_to_handler:
  assumes K: "posix_mq K" and s: "registered K (kern s)" "waiting K (kern s) = []" "\<not> broken s"
    and n: "length x < n"
  shows "\<exists>k. (carries K n)\<^sup>*\<^sup>* s (s\<lparr>kern := k, sent := sent s @ [x],
      handlers := handlers s @ [Holding (c_text x)]\<rparr>) \<and> waiting K k = [] \<and> registered K k"
proof -
  let ?t = "length (handlers s)"
  obtain k1 fire where d1: "deliver K (kern s) x = (k1, fire)" by (cases "deliver K (kern s) x")
  with s deliver_law[OF K d1] have k1: "fire" "waiting K k1 = [x]" by simp_all
  let ?s1 = "s\<lparr>kern := k1, sent := sent s @ [x], handlers := handlers s @ [Notified]\<rparr>"
  have 1: "carries K n s ?s1"
    using mq_step.send[of s x n K k1 fire] s n d1 k1 by (simp add: carries_def)
  let ?s2 = "put_handler ?t Reading (?s1\<lparr>kern := register K k1\<rparr>)"
  have 2: "carries K n ?s1 ?s2"
    using mq_step.reregister[of ?s1 ?t K n] s by (simp add: mq_defs carries_def)
  obtain y k2 where d2: "take_message K (register K k1) = Some (y, k2)"
    using take_None_law[OF K, of "register K k1"] k1 K by (cases "take_message K (register K k1)") auto
  with take_Some_law[OF K d2] k1 K have k2: "y = x" "waiting K k2 = []" "registered K k2" by simp_all
  let ?s3 = "put_handler ?t (Holding (c_text x)) (?s2\<lparr>kern := k2\<rparr>)"
  have 3: "carries K n ?s2 ?s3"
    using mq_step.receive[of ?s2 ?t K x k2 n] s n d2 k2(1) by (simp add: mq_defs carries_def)
  have "(carries K n)\<^sup>*\<^sup>* s ?s3"
    using 1 2 3 by (meson converse_rtranclp_into_rtranclp r_into_rtranclp)
  moreover have "?s3 = s\<lparr>kern := k2, sent := sent s @ [x], handlers := handlers s @ [Holding (c_text x)]\<rparr>"
    by (simp add: put_handler_def)
  ultimately show ?thesis using k2 by auto
qed

lemma carries_push:
  assumes "at_handler s t (Holding v)"
  shows "carries K n s (put_handler t Finished (s\<lparr>line_queue := push v (line_queue s)\<rparr>))"
  using mq_step.push_line[OF assms, of K n] assms by (simp add: carries_def mq_defs)

lemma carries_one_line:
  assumes "posix_mq K" and q: "mq_quiet K m0" and "length x < n"
  shows "\<exists>m. (carries K n)\<^sup>*\<^sup>* m0 m \<and> sent m = sent m0 @ [x] \<and>
    line_queue m = push (c_text x) (line_queue m0) \<and> mq_quiet K m"
proof -
  obtain k where k: "(carries K n)\<^sup>*\<^sup>* m0 (m0\<lparr>kern := k, sent := sent m0 @ [x],
      handlers := handlers m0 @ [Holding (c_text x)]\<rparr>)" and k': "waiting K k = []" "registered K k"
    using carries_to_handler[OF assms(1), of m0 x n] q assms(3) by (auto simp: mq_quiet_def)
  let ?m = "m0\<lparr>kern := k, sent := sent m0 @ [x], handlers := handlers m0 @ [Holding (c_text x)]\<rparr>"
  let ?m' = "put_handler (length (handlers m0)) Finished
    (?m\<lparr>line_queue := push (c_text x) (line_queue ?m)\<rparr>)"
  have "at_handler ?m (length (handlers m0)) (Holding (c_text x))"
    using q by (simp add: mq_quiet_def mq_defs)
  then have "(carries K n)\<^sup>*\<^sup>* m0 ?m'" by (rule rtranclp.rtrancl_into_rtrancl[OF k carries_push])
  moreover have "sent ?m' = sent m0 @ [x]" "line_queue ?m' = push (c_text x) (line_queue m0)"
    "mq_quiet K ?m'"
    using q k' by (auto simp: put_handler_def mq_quiet_def list_update_append)
  ultimately show ?thesis by blast
qed

text \<open>Command lines can overtake each other: there are runs from rest in which a handler that has
  received its line but not yet pushed it is overtaken by the handler of the next line, so that
  the queue of the end point holds the later command in front of the earlier one.\<close>

theorem lines_can_overtake:
  assumes K: "posix_mq K" and q: "mq_quiet K s0" and n: "length a < n" "length b < n"
  shows "\<exists>s. (mq_step K n)\<^sup>*\<^sup>* s0 s \<and> sent s = sent s0 @ [a, b] \<and>
    que (line_queue s) = que (line_queue s0) @ [c_text b, c_text a]"
proof -
  let ?t = "length (handlers s0)"
  obtain k1 where 1: "(carries K n)\<^sup>*\<^sup>* s0 (s0\<lparr>kern := k1, sent := sent s0 @ [a],
      handlers := handlers s0 @ [Holding (c_text a)]\<rparr>)"
    and k1: "waiting K k1 = []" "registered K k1"
    using carries_to_handler[OF K, of s0 a n] q n by (auto simp: mq_quiet_def)
  let ?s1 = "s0\<lparr>kern := k1, sent := sent s0 @ [a], handlers := handlers s0 @ [Holding (c_text a)]\<rparr>"
  obtain k2 where 2: "(carries K n)\<^sup>*\<^sup>* ?s1 (?s1\<lparr>kern := k2, sent := sent ?s1 @ [b],
      handlers := handlers ?s1 @ [Holding (c_text b)]\<rparr>)"
    using carries_to_handler[OF K, of ?s1 b n] q n k1 by (auto simp: mq_quiet_def)
  let ?s2 = "?s1\<lparr>kern := k2, sent := sent ?s1 @ [b], handlers := handlers ?s1 @ [Holding (c_text b)]\<rparr>"
  have 3: "at_handler ?s2 (Suc ?t) (Holding (c_text b))"
    using q by (simp add: mq_quiet_def at_handler_def nth_append)
  let ?s3 = "put_handler (Suc ?t) Finished (?s2\<lparr>line_queue := push (c_text b) (line_queue ?s2)\<rparr>)"
  have 4: "at_handler ?s3 ?t (Holding (c_text a))"
    using q by (simp add: mq_quiet_def mq_defs nth_append)
  let ?s4 = "put_handler ?t Finished (?s3\<lparr>line_queue := push (c_text a) (line_queue ?s3)\<rparr>)"
  have "(carries K n)\<^sup>*\<^sup>* s0 ?s4"
    using 1 2 carries_push[OF 3] carries_push[OF 4]
    by (meson rtranclp.rtrancl_into_rtrancl rtranclp_trans)
  then show ?thesis
    by (intro exI[of _ ?s4] conjI carries_steps) (simp_all add: put_handler_def tsq.queue_laws)
qed

section \<open>Instances\<close>

definition demo_mq :: "bool \<Rightarrow> (string list \<times> bool) mq_state" where
  "demo_mq d = \<lparr>kern = ([], True), draining = d, handlers = [], line_queue = new_queue, broken = False,
     sent = [], drained = [], taken = []\<rparr>"

lemma demo_mq_quiet: "mq_quiet list_mq (demo_mq False)"
  by (simp add: mq_quiet_def demo_mq_def list_mq_def)

lemma demo_mq_start: "mq_start list_mq (demo_mq True)"
  by (simp add: mq_start_def demo_mq_def list_mq_def)

theorem start_race_breaks_handler_witness:
  "\<exists>s. (mq_step list_mq 8192)\<^sup>*\<^sup>* (demo_mq True) s \<and> sent s = [''-r''] \<and> ''-r'' \<in> set (drained s) \<and>
    broken s"
  using start_race_breaks_handler[OF list_mq_posix demo_mq_start, of "''-r''" 8192]
  by (simp add: demo_mq_def)

text \<open>A run with one handler: a line accepted, its handler past \<^verbatim>\<open>mq_notify\<close>.\<close>

definition demo_reading :: "bool \<Rightarrow> (string list \<times> bool) mq_state" where
  "demo_reading d = (demo_mq d)\<lparr>kern := ([''-r''], True), sent := [''-r''], handlers := [Reading]\<rparr>"

lemma demo_reading_reached: "(mq_step list_mq 8192)\<^sup>*\<^sup>* (demo_mq d) (demo_reading d)"
proof -
  let ?s1 = "(demo_mq d)\<lparr>kern := ([''-r''], False), sent := [''-r''], handlers := [Notified]\<rparr>"
  have 1: "mq_step list_mq 8192 (demo_mq d) ?s1"
    using mq_step.send[of "demo_mq d" "''-r''" 8192 list_mq "([''-r''], False)" True]
    by (simp add: demo_mq_def list_mq_def)
  have "mq_step list_mq 8192 ?s1 (demo_reading d)"
    using mq_step.reregister[of ?s1 0 list_mq 8192]
    by (simp add: demo_reading_def demo_mq_def mq_defs list_mq_def)
  with 1 show ?thesis by (intro mq_then[OF 1] mq_last)
qed

text \<open>The run goes on: a second line comes before the handler's \<^verbatim>\<open>mq_receive\<close>, the handler
  takes the first one and is done with it.\<close>

definition demo_two :: "(string list \<times> bool) mq_state" where
  "demo_two = (demo_reading False)\<lparr>kern := ([''-r'', ''-c''], True), sent := [''-r'', ''-c'']\<rparr>"

definition demo_stuck :: "(string list \<times> bool) mq_state" where
  "demo_stuck = demo_two\<lparr>kern := ([''-c''], True), handlers := [Holding ''-r'']\<rparr>"

lemma demo_two_steps:
  "mq_step list_mq 8192 (demo_reading False) demo_two" "mq_step list_mq 8192 demo_two demo_stuck"
  using mq_step.send[of "demo_reading False" "''-c''" 8192 list_mq "([''-r'', ''-c''], True)" False]
    mq_step.receive[of demo_two 0 list_mq "''-r''" "([''-c''], True)" 8192]
  by (simp_all add: demo_stuck_def demo_two_def demo_reading_def demo_mq_def mq_defs list_mq_def c_text_def)

theorem mq_notification_lost_witness:
  "(mq_step list_mq 8192)\<^sup>*\<^sup>* (demo_mq False) demo_two \<and> (mq_step list_mq 8192)\<^sup>*\<^sup>* demo_two demo_stuck \<and>
   waiting list_mq (kern demo_two) = [''-r'', ''-c''] \<and>
   drop (count_pc pending (handlers demo_stuck)) (waiting list_mq (kern demo_stuck)) = [''-c'']"
proof -
  have h: "count_pc pending (handlers demo_two) = 1" "\<not> draining demo_two" "sent demo_stuck = sent demo_two"
    "waiting list_mq (kern demo_two) = [''-r'', ''-c'']"
    by (simp_all add: demo_two_def demo_stuck_def demo_reading_def demo_mq_def list_mq_def count_pc_def)
  from mq_notification_lost[OF list_mq_posix _ _ mq_last[OF demo_two_steps(2)]] h demo_two_steps
    rtranclp.rtrancl_into_rtrancl[OF demo_reading_reached demo_two_steps(1)] show ?thesis by auto
qed

theorem handler_finds_message_witness:
  "(mq_step list_mq 8192)\<^sup>*\<^sup>* (demo_mq False) (demo_reading False) \<and>
   take_message list_mq (kern (demo_reading False)) \<noteq> None"
  using handler_finds_message[OF list_mq_posix demo_mq_quiet demo_reading_reached, of 0]
    demo_reading_reached by (simp add: demo_reading_def demo_mq_def mq_defs)

theorem lines_can_overtake_witness:
  "\<exists>s. (mq_step list_mq 8192)\<^sup>*\<^sup>* (demo_mq False) s \<and> sent s = [''-f 4 -c'', ''-f 4 -r''] \<and>
    que (line_queue s) = [''-f 4 -r'', ''-f 4 -c'']"
  using lines_can_overtake[OF list_mq_posix demo_mq_quiet, of "''-f 4 -c''" 8192 "''-f 4 -r''"]
  by (simp add: c_text_def demo_mq_def new_queue_def)

theorem command_lines_conserved_witness:
  "(mq_step list_mq 8192)\<^sup>*\<^sup>* (demo_mq True) (demo_reading True) \<and>
   mset (map c_text (sent (demo_reading True))) = {#''-r''#} \<and>
   mset (map c_text (waiting list_mq (kern (demo_reading True)))) + held (handlers (demo_reading True)) +
     mset (que (line_queue (demo_reading True))) = {#''-r''#}"
  using command_lines_conserved[OF list_mq_posix demo_mq_start demo_reading_reached]
    demo_reading_reached by (simp add: demo_reading_def demo_mq_def c_text_def)

end
