(* ===== verification/Channel_Spec.thy ===== *)
theory Channel_Spec
  imports Message_Queue
begin

text \<open>
  What the way of command lines promises when the program starts from rest and no line fills a
  message: it loses nothing, makes nothing up and never breaks. Whether it keeps the order depends
  on the handlers: with any number of them between \<^verbatim>\<open>mq_receive\<close> and
  \<^verbatim>\<open>queue.push\<close> it is an unordered channel, with one at a time it is a queue.
\<close>

section \<open>The specification\<close>

record channel =
  in_flight :: "string multiset"
  accepted :: "string multiset"
  received :: "string list"

inductive channel_step :: "channel \<Rightarrow> channel \<Rightarrow> bool" where
  accept: "channel_step a (a\<lparr>in_flight := in_flight a + {#v#}, accepted := accepted a + {#v#}\<rparr>)"
| receive: "v \<in># in_flight a \<Longrightarrow>
    channel_step a (a\<lparr>in_flight := in_flight a - {#v#}, received := received a @ [v]\<rparr>)"

definition channel_init :: "channel \<Rightarrow> bool" where
  "channel_init a \<longleftrightarrow> a = \<lparr>in_flight = {#}, accepted = {#}, received = []\<rparr>"

definition channel_inv :: "channel \<Rightarrow> bool" where
  "channel_inv a \<longleftrightarrow> accepted a = in_flight a + mset (received a)"

lemma channel_step_inv: "channel_inv a \<Longrightarrow> channel_step a b \<Longrightarrow> channel_inv b"
  by (erule channel_step.cases) (auto simp: channel_inv_def)

interpretation channel_spec: invariant_system channel_init channel_step channel_inv
proof unfold_locales
  show "channel_inv a" if "channel_init a" for a
    using that by (simp add: channel_init_def channel_inv_def)
qed (rule channel_step_inv)

section \<open>The transport at rest\<close>

text \<open>Every message that was accepted leaves room for the terminator.\<close>

definition short_step :: "'k mq_ops \<Rightarrow> nat \<Rightarrow> 'k mq_state \<Rightarrow> 'k mq_state \<Rightarrow> bool" where
  "short_step K n s t \<longleftrightarrow> mq_step K n s t \<and> (\<forall>m \<in> set (sent t). length m < n)"

definition mq_rest :: "'k mq_ops \<Rightarrow> 'k mq_state \<Rightarrow> bool" where
  "mq_rest K s \<longleftrightarrow> posix_mq K \<and> mq_quiet K s \<and> handlers s = [] \<and> line_queue s = new_queue \<and>
     sent s = [] \<and> taken s = []"

definition mq_sound :: "'k mq_ops \<Rightarrow> nat \<Rightarrow> 'k mq_state \<Rightarrow> bool" where
  "mq_sound K n s \<longleftrightarrow> posix_mq K \<and> mq_matched K s \<and> \<not> broken s \<and>
     (\<forall>m \<in> set (waiting K (kern s)). length m < n)"

definition channel_of :: "'k mq_ops \<Rightarrow> 'k mq_state \<Rightarrow> channel" where
  "channel_of K s =
     \<lparr>in_flight = mset (map c_text (waiting K (kern s))) + held (handlers s) + mset (que (line_queue s)),
      accepted = mset (map c_text (sent s)), received = taken s\<rparr>"

lemma sound_reading_waiting:
  assumes "mq_sound K n s" and "at_handler s t Reading"
  shows "waiting K (kern s) \<noteq> []"
proof -
  have "0 < count_pc pending (handlers s)"
    using assms(2) unfolding count_pc_positive by (auto simp: mq_defs intro!: exI[of _ t])
  then show ?thesis using assms by (auto simp: mq_sound_def mq_matched_def)
qed

lemma sound_step:
  assumes s: "mq_sound K n s" and t: "short_step K n s t"
  shows "mq_sound K n t"
proof -
  have K: "posix_mq K" and step: "mq_step K n s t" using s t by (simp_all add: mq_sound_def short_step_def)
  have m: "mq_matched K t" using matched_step[OF K _ step] s by (simp add: mq_sound_def)
  from step show ?thesis
  proof cases
    case (send m k' fire)
    with s m t deliver_law[OF K send(4)] show ?thesis by (auto simp: mq_sound_def short_step_def)
  next
    case (receive u x k')
    with s m take_Some_law[OF K receive(3)] show ?thesis by (auto simp: mq_sound_def mq_defs)
  next
    case (receive_full u x k')
    with s take_Some_law[OF K receive_full(3)] show ?thesis by (auto simp: mq_sound_def)
  next
    case (receive_none u)
    with sound_reading_waiting[OF s receive_none(2)] take_None_law[OF K] show ?thesis by simp
  qed (use s m K in \<open>auto simp: mq_sound_def mq_matched_def mq_defs\<close>)
qed

lemma channel_of_step:
  assumes s: "mq_sound K n s" and t: "short_step K n s t"
  shows "channel_of K t = channel_of K s \<or> channel_step (channel_of K s) (channel_of K t)"
proof -
  have K: "posix_mq K" and step: "mq_step K n s t" using s t by (simp_all add: mq_sound_def short_step_def)
  from step show ?thesis
  proof cases
    case (send m k' fire)
    have "held (handlers s @ (if fire then [Notified] else [])) = held (handlers s)" by simp
    with send deliver_law[OF K send(4)] channel_step.accept[of "channel_of K s" "c_text m"]
    show ?thesis by (simp add: channel_of_def ac_simps)
  next
    case (reregister u)
    with held_update[of u "handlers s" Reading] K show ?thesis by (simp add: channel_of_def mq_defs)
  next
    case (receive u m k')
    with held_update[of u "handlers s" "Holding (c_text m)"] take_Some_law[OF K receive(3)]
    show ?thesis by (simp add: channel_of_def mq_defs)
  next
    case (receive_full u x k')
    with s take_Some_law[OF K receive_full(3)] show ?thesis by (auto simp: mq_sound_def)
  next
    case (receive_none u)
    with sound_reading_waiting[OF s receive_none(2)] take_None_law[OF K] show ?thesis by simp
  next
    case (push_line u v)
    with held_update[of u "handlers s" Finished] show ?thesis
      by (auto simp: channel_of_def mq_defs tsq.queue_laws ac_simps)
  next
    case (pop_line v q)
    with tsq.deq_Some[OF pop_line(3)] channel_step.receive[of v "channel_of K s"] show ?thesis
      by (simp add: channel_of_def)
  qed (use s in \<open>auto simp: mq_sound_def mq_matched_def\<close>)
qed

interpretation transport: refinement "mq_rest K" "short_step K n" "mq_sound K n"
    channel_init channel_step "channel_of K" for K :: "'k mq_ops" and n
proof unfold_locales
  fix s t :: "'k mq_state"
  show "mq_sound K n s" if "mq_rest K s"
    using that quiet_matched[of K s] by (simp add: mq_rest_def mq_sound_def mq_quiet_def)
  show "channel_init (channel_of K s)" if "mq_rest K s"
    using that by (simp add: mq_rest_def mq_quiet_def channel_init_def channel_of_def new_queue_def)
  assume s: "mq_sound K n s" "short_step K n s t"
  show "mq_sound K n t" by (rule sound_step[OF s])
  from channel_of_step[OF s] show "channel_step\<^sup>*\<^sup>* (channel_of K s) (channel_of K t)" by auto
qed

text \<open>The transport refines an unordered channel: from rest (the emptying loop over, no message, no
  handler, the notification armed), and as long as every line leaves room for its terminator, everything that senders, the kernel's queue, any number of handlers
  and the end point do together is, seen from its two ends, accepting lines and handing over
  accepted lines, each at most once and in any order; no handler fails.\<close>

theorem transport_refines_channel:
  assumes "reachable (mq_rest K) (short_step K n) s"
  shows "reachable channel_init channel_step (channel_of K s) \<and> \<not> broken s"
  using transport.abst_reachable[OF assms] transport.inv_reachable[OF assms]
  by (simp add: mq_sound_def)

theorem transport_refines_channel_witness:
  "reachable (mq_rest list_mq) (short_step list_mq 8192) (demo_reading False) \<and>
   in_flight (channel_of list_mq (demo_reading False)) = {#''-r''#} \<and>
   reachable channel_init channel_step (channel_of list_mq (demo_reading False))"
proof -
  let ?s1 = "(demo_mq False)\<lparr>kern := ([''-r''], False), sent := [''-r''], handlers := [Notified]\<rparr>"
  have "mq_rest list_mq (demo_mq False)"
    using demo_mq_quiet list_mq_posix by (simp add: mq_rest_def demo_mq_def)
  then have 0: "reachable (mq_rest list_mq) (short_step list_mq 8192) (demo_mq False)"
    by (rule reachable_init)
  have "mq_step list_mq 8192 (demo_mq False) ?s1"
    using mq_step.send[of "demo_mq False" "''-r''" 8192 list_mq "([''-r''], False)" True]
    by (simp add: demo_mq_def list_mq_def)
  then have "short_step list_mq 8192 (demo_mq False) ?s1" by (simp add: short_step_def)
  with 0 have 1: "reachable (mq_rest list_mq) (short_step list_mq 8192) ?s1" by (rule reachable_step)
  have "mq_step list_mq 8192 ?s1 (demo_reading False)"
    using mq_step.reregister[of ?s1 0 list_mq 8192]
    by (simp add: demo_reading_def demo_mq_def mq_defs list_mq_def)
  then have "short_step list_mq 8192 ?s1 (demo_reading False)"
    by (simp add: short_step_def demo_reading_def)
  with 1 have r: "reachable (mq_rest list_mq) (short_step list_mq 8192) (demo_reading False)"
    by (rule reachable_step)
  moreover have "in_flight (channel_of list_mq (demo_reading False)) = {#''-r''#}"
    by (simp add: channel_of_def demo_reading_def demo_mq_def list_mq_def c_text_def new_queue_def)
  ultimately show ?thesis using transport_refines_channel[OF r] by blast
qed

section \<open>The order of the lines\<close>

text \<open>At most one handler holds a line.\<close>

definition calm_step :: "'k mq_ops \<Rightarrow> nat \<Rightarrow> 'k mq_state \<Rightarrow> 'k mq_state \<Rightarrow> bool" where
  "calm_step K n s t \<longleftrightarrow> short_step K n s t \<and> length (concat (map held_line (handlers t))) \<le> 1"

text \<open>The lines on their way, from the one next to the end point to the one that came last.\<close>

definition on_the_way :: "'k mq_ops \<Rightarrow> 'k mq_state \<Rightarrow> string list" where
  "on_the_way K s = que (line_queue s) @ concat (map held_line (handlers s)) @ map c_text (waiting K (kern s))"

definition mq_ordered :: "'k mq_ops \<Rightarrow> nat \<Rightarrow> 'k mq_state \<Rightarrow> bool" where
  "mq_ordered K n s \<longleftrightarrow> mq_sound K n s \<and> map c_text (sent s) = taken s @ on_the_way K s"

lemma held_replace:
  assumes "t < length hs" and "held_line (hs ! t) = []" and "length (concat (map held_line (hs[t := p]))) \<le> 1"
    and "held_line p = [v]"
  shows "concat (map held_line hs) = []" and "concat (map held_line (hs[t := p])) = [v]"
proof -
  have h: "hs = take t hs @ hs ! t # drop (Suc t) hs" using assms(1) by (rule id_take_nth_drop)
  have u: "hs[t := p] = take t hs @ p # drop (Suc t) hs" using assms(1) by (simp add: upd_conv_take_nth_drop)
  show "concat (map held_line (hs[t := p])) = [v]" using assms(3,4) unfolding u by (auto simp: append_eq_Cons_conv)
  show "concat (map held_line hs) = []" using assms(2-4) unfolding u by (subst h) simp
qed

lemma held_same:
  "t < length hs \<Longrightarrow> held_line (hs ! t) = held_line p \<Longrightarrow>
    concat (map held_line (hs[t := p])) = concat (map held_line hs)"
  by (metis list_update_id map_update)

lemma held_put_down:
  assumes "t < length hs" and "hs ! t = Holding v" and "length (concat (map held_line hs)) \<le> 1"
  shows "concat (map held_line hs) = [v]" and "concat (map held_line (hs[t := Finished])) = []"
proof -
  have u: "hs[t := Finished] = take t hs @ Finished # drop (Suc t) hs"
    using assms(1) by (simp add: upd_conv_take_nth_drop)
  have h: "hs = take t hs @ Holding v # drop (Suc t) hs" using assms(1,2) id_take_nth_drop[of t hs] by simp
  have e: "length (concat (map held_line (take t hs @ Holding v # drop (Suc t) hs))) \<le> 1"
    using assms(3) h by simp
  show "concat (map held_line hs) = [v]" using e by (subst h) (auto simp: append_eq_Cons_conv)
  show "concat (map held_line (hs[t := Finished])) = []" using e unfolding u by simp
qed

lemma ordered_step:
  assumes o: "mq_ordered K n s" "length (concat (map held_line (handlers s))) \<le> 1" and t: "calm_step K n s t"
  shows "mq_ordered K n t"
proof -
  have s: "mq_sound K n s" and K: "posix_mq K" using o by (simp_all add: mq_ordered_def mq_sound_def)
  have sh: "short_step K n s t" and step: "mq_step K n s t"
    and c: "length (concat (map held_line (handlers t))) \<le> 1"
    using t by (simp_all add: calm_step_def short_step_def)
  have "map c_text (sent t) = taken t @ on_the_way K t"
    using step
  proof cases
    case (send m k' fire)
    with o deliver_law[OF K send(4)] show ?thesis by (auto simp: mq_ordered_def on_the_way_def)
  next
    case (drain_one m k')
    with s show ?thesis by (simp add: mq_sound_def mq_matched_def)
  next
    case drain_end
    with o show ?thesis by (simp add: mq_ordered_def on_the_way_def)
  next
    case (reregister u)
    with o held_same[of u "handlers s" Reading] K show ?thesis
      by (simp add: mq_ordered_def on_the_way_def mq_defs)
  next
    case (receive u m k')
    then have u: "u < length (handlers s)" "held_line (handlers s ! u) = []" by (simp_all add: mq_defs)
    have "length (concat (map held_line ((handlers s)[u := Holding (c_text m)]))) \<le> 1"
      using c receive(1) by (simp add: put_handler_def)
    from held_replace[OF u this, of "c_text m"] o take_Some_law[OF K receive(3)] receive(1) show ?thesis
      by (simp add: mq_ordered_def on_the_way_def put_handler_def)
  next
    case (receive_full u x k')
    with s take_Some_law[OF K receive_full(3)] show ?thesis by (auto simp: mq_sound_def)
  next
    case (receive_none u)
    with sound_reading_waiting[OF s receive_none(2)] take_None_law[OF K] show ?thesis by simp
  next
    case (push_line u v)
    then have "u < length (handlers s)" "handlers s ! u = Holding v" by (simp_all add: mq_defs)
    from held_put_down[OF this o(2)] o(1) push_line(1) show ?thesis
      by (simp add: mq_ordered_def on_the_way_def put_handler_def tsq.queue_laws)
  next
    case (pop_line v q)
    with o tsq.deq_Some[OF pop_line(3)] show ?thesis by (simp add: mq_ordered_def on_the_way_def)
  qed
  with sound_step[OF s sh] show ?thesis by (simp add: mq_ordered_def)
qed

interpretation calm: invariant_system "mq_rest K" "calm_step K n"
    "\<lambda>s. mq_ordered K n s \<and> length (concat (map held_line (handlers s))) \<le> 1" for K :: "'k mq_ops" and n
proof unfold_locales
  fix s t :: "'k mq_state"
  show "mq_ordered K n s \<and> length (concat (map held_line (handlers s))) \<le> 1" if "mq_rest K s"
    using that transport.inv_init[OF that, of n]
    by (simp add: mq_rest_def mq_quiet_def mq_ordered_def on_the_way_def new_queue_def)
  show "mq_ordered K n t \<and> length (concat (map held_line (handlers t))) \<le> 1"
    if "mq_ordered K n s \<and> length (concat (map held_line (handlers s))) \<le> 1" and "calm_step K n s t"
    using that ordered_step[of K n s t] by (auto simp: calm_step_def)
qed

text \<open>C9: command lines keep their order when handlers do not overlap: from rest (the emptying loop
  over, the message queue empty, the notification armed, no handler), as long as every line leaves room for
  its terminator and at most one handler at a time holds a line it has received but not pushed,
  the lines the end point has taken, followed by those in its queue, the one in the handler's
  hands and those in the kernel, are exactly the lines that were sent, in the order they were
  sent, and no handler writes outside its buffer.\<close>

theorem lines_keep_order:
  assumes "reachable (mq_rest K) (calm_step K n) s"
  shows "map c_text (sent s) = taken s @ que (line_queue s) @ concat (map held_line (handlers s)) @
    map c_text (waiting K (kern s)) \<and> \<not> broken s"
  using calm.inv_reachable[OF assms] by (simp add: mq_ordered_def on_the_way_def mq_sound_def)

theorem lines_keep_order_witness:
  "reachable (mq_rest list_mq) (calm_step list_mq 8192) demo_stuck \<and>
   map c_text (sent demo_stuck) = [''-r'', ''-c''] \<and>
   que (line_queue demo_stuck) @ concat (map held_line (handlers demo_stuck)) @
     map c_text (waiting list_mq (kern demo_stuck)) = [''-r'', ''-c'']"
proof -
  let ?s1 = "(demo_mq False)\<lparr>kern := ([''-r''], False), sent := [''-r''], handlers := [Notified]\<rparr>"
  note d = calm_step_def short_step_def demo_stuck_def demo_two_def demo_reading_def demo_mq_def
  have "mq_rest list_mq (demo_mq False)"
    using demo_mq_quiet list_mq_posix by (simp add: mq_rest_def demo_mq_def)
  then have 0: "reachable (mq_rest list_mq) (calm_step list_mq 8192) (demo_mq False)"
    by (rule reachable_init)
  have "calm_step list_mq 8192 (demo_mq False) ?s1" "calm_step list_mq 8192 ?s1 (demo_reading False)"
    using mq_step.send[of "demo_mq False" "''-r''" 8192 list_mq "([''-r''], False)" True]
      mq_step.reregister[of ?s1 0 list_mq 8192]
    by (simp_all add: d mq_defs list_mq_def)
  moreover have "calm_step list_mq 8192 (demo_reading False) demo_two" "calm_step list_mq 8192 demo_two demo_stuck"
    using demo_two_steps by (simp_all add: d)
  ultimately have r: "reachable (mq_rest list_mq) (calm_step list_mq 8192) demo_stuck"
    using 0 by (blast intro: reachable_step)
  from lines_keep_order[OF r] r show ?thesis by (simp add: d c_text_def list_mq_def new_queue_def)
qed

end
