(* ===== verification/Whole_System.thy ===== *)
theory Whole_System
  imports Client_Descriptors Channel_Spec
begin

text \<open>
  Everything together: the senders, the kernel's message queue and the handlers of
  Message_Queue, and the threads of the client of Client_System, on the one queue they share
  (\<^verbatim>\<open>queue\<close> in \<^verbatim>\<open>main.cpp\<close>). From a command typed in a second process to the socket.
\<close>

section \<open>The joint system\<close>

text \<open>
  A step of the transport other than taking a line, which only the interpreting thread does, or a
  step of one of the client's threads. The queue is part of both states; whoever changed it tells
  the other. A step of the client that makes the queue shorter is one of the interpreting thread,
  which has taken the first line. Once the process has ended nothing happens any more.
\<close>

definition popped_lines :: "client \<Rightarrow> client \<Rightarrow> string list" where
  "popped_lines c c' = take (length (que (cl_queue c)) - length (que (cl_queue c'))) (que (cl_queue c))"

inductive whole_step ::
  "'k mq_ops \<Rightarrow> nat \<Rightarrow> env \<Rightarrow> 'k mq_state \<times> client outcome \<Rightarrow> 'k mq_state \<times> client outcome \<Rightarrow> bool"
  for K msgsize e where
  transport: "mq_step K msgsize m m' \<Longrightarrow> taken m' = taken m \<Longrightarrow> \<not> broken m' \<Longrightarrow>
    whole_step K msgsize e (m, Inr c) (m', Inr (c\<lparr>cl_queue := line_queue m'\<rparr>))"
| handler_breaks: "mq_step K msgsize m m' \<Longrightarrow> broken m' \<Longrightarrow>
    whole_step K msgsize e (m, Inr c) (m', Inl (Undefined ''buf[rcv] out of range''))"
| program: "thread_step e (Inr c) (Inr c') \<Longrightarrow>
    whole_step K msgsize e (m, Inr c)
      (m\<lparr>line_queue := cl_queue c', taken := taken m @ popped_lines c c'\<rparr>, Inr c')"
| program_ends: "thread_step e (Inr c) (Inl x) \<Longrightarrow> whole_step K msgsize e (m, Inr c) (m, Inl x)"

text \<open>
  The client is constructed when the loop that empties the message queue is over; senders and
  handlers may have been at work before.
\<close>

definition whole_init :: "'k mq_ops \<Rightarrow> nat \<Rightarrow> env \<Rightarrow> 'k mq_state \<times> client outcome \<Rightarrow> bool" where
  "whole_init K msgsize e s \<longleftrightarrow>
     (\<exists>m0 c. posix_mq K \<and> mq_start K m0 \<and> (mq_step K msgsize)\<^sup>*\<^sup>* m0 (fst s) \<and>
        \<not> draining (fst s) \<and> \<not> broken (fst s) \<and> taken (fst s) = [] \<and>
        client_init e (Inr c) \<and> snd s = Inr (c\<lparr>cl_queue := line_queue (fst s)\<rparr>))"

section \<open>Where requests come from\<close>

text \<open>The threads of the client wait for events in one place only.\<close>

lemma tcp_call_silent: "tcp_call c \<Longrightarrow> \<not> waits c"
  by (cases c) auto

lemma tls_call_silent: "tls_call c \<Longrightarrow> \<not> waits c"
  by (cases c) auto

lemmas handle_io_failure_silent = emits_mono[OF handle_io_failure_tls_call tls_call_silent]

lemma IO_connect_silent:
  assumes "IO_connect e (appendNotificationNode e ep) io tr = (ok, io', tr')"
  shows "emits (\<lambda>c. \<not> waits c) tr tr'"
  by (rule IO_connect_emits[OF assms])
    (simp_all add: tcp_call_silent tls_call_silent appendNotificationNode_run Let_def)

lemma IO_read_silent: "emits (\<lambda>c. \<not> waits c) tr (snd (IO_read e io tr))"
  by (auto simp: IO_read_def Let_def split: prod.splits if_splits
      dest!: sysD handle_io_failure_silent intro!: emits.add)
    (auto simp: extends_def)

lemma threadFunc_reported:
  assumes "threadFunc e (appendNotificationNode e ep) p tr = Some (p', tr')"
  shows "reported tr' = reported tr"
  using assms
proof (cases rule: threadFunc_cases)
  case (write_it q m)
  then show ?thesis by (simp add: IO_write_run write_call_def)
next
  case (connect_it b tr1 a)
  with reported_silent[OF IO_connect_silent[OF connect_it(3)]] show ?thesis by simp
qed (simp_all add: reported_silent[OF IO_read_silent])

lemma main_reported: "main e args opts junk junk' [] = Some (Inr r, tr) \<Longrightarrow> reported tr = []"
  using reported_silent[of "[]" tr] emits_mono[OF main_startup, of e args opts junk junk' "[]" r tr "\<lambda>c. \<not> waits c"]
  by simp

text \<open>Of the lines in the queue, a step of the client takes those it has popped_lines from the front and
  adds one at the end for each event the kernel reports in this step.\<close>

lemma thread_step_lines:
  assumes "thread_step e (Inr c) (Inr c')"
  shows "\<exists>xs. que (cl_queue c) @ map event_request xs = popped_lines c c' @ que (cl_queue c') \<and>
    reported (cl_trace c') = reported (cl_trace c) @ xs"
  using assms
proof cases
  case (stdin arg q junk r tr)
  then obtain ep where "r = Inr ep" "c' = c\<lparr>cl_end_point := ep, cl_queue := q, cl_trace := tr\<rparr>" by (cases r) auto
  with tsq.deq_Some[OF stdin(2)] interpretRequest_quiet[OF stdin(3)] show ?thesis by (simp add: popped_lines_def)
next
  case (epoll r tr)
  then obtain q where "r = Inr q" "c' = c\<lparr>cl_queue := q, cl_trace := tr\<rparr>" by (cases r) auto
  with waiterFunction_reported[of e "ep_epoll (cl_end_point c)" "cl_queue c" "cl_trace c" q tr] epoll(3)
  show ?thesis by (auto simp: popped_lines_def)
next
  case timer
  then have "c' = c" by (cases "timer_pass (peers (cl_end_point c))") auto
  then show ?thesis by (simp add: popped_lines_def)
next
  case (peer ps p qs p' tr)
  with threadFunc_reported[OF peer(3)] show ?thesis by (simp add: popped_lines_def)
qed

section \<open>The invariant\<close>

definition balanced :: "'k mq_ops \<Rightarrow> 'k mq_state \<Rightarrow> client \<Rightarrow> bool" where
  "balanced K m c \<longleftrightarrow>
     mset (map c_text (sent m)) + mset (map event_request (reported (cl_trace c))) = accounted K m"

definition whole_inv :: "'k mq_ops \<Rightarrow> 'k mq_state \<times> client outcome \<Rightarrow> bool" where
  "whole_inv K s \<longleftrightarrow> posix_mq K \<and> client_inv (snd s) \<and>
     (\<forall>c. snd s = Inr c \<longrightarrow> cl_queue c = line_queue (fst s) \<and> balanced K (fst s) c)"

lemma client_inv_queue: "client_inv (Inr (c\<lparr>cl_queue := q\<rparr>)) = client_inv (Inr c)"
  by (simp add: client_inv_def)

lemma whole_init_inv:
  assumes "whole_init K n e s" shows "whole_inv K s"
proof -
  from assms obtain m0 c where K: "posix_mq K" and m0: "mq_start K m0" "(mq_step K n)\<^sup>*\<^sup>* m0 (fst s)"
    and c: "client_init e (Inr c)" "snd s = Inr (c\<lparr>cl_queue := line_queue (fst s)\<rparr>)"
    unfolding whole_init_def by blast
  from c(1) have "reported (cl_trace c) = []" by (auto simp: client_init_def dest!: main_reported)
  with accounted_steps[OF K m0(2) accounted_start[OF m0(1)]] client_init_inv[OF c(1)] K c(2) show ?thesis
    by (simp add: whole_inv_def client_inv_queue balanced_def)
qed

lemma balanced_program:
  assumes b: "balanced K m c" "cl_queue c = line_queue m" and step: "thread_step e (Inr c) (Inr c')"
  shows "balanced K (m\<lparr>line_queue := cl_queue c', taken := taken m @ popped_lines c c'\<rparr>) c'"
proof -
  obtain xs where x: "que (cl_queue c) @ map event_request xs = popped_lines c c' @ que (cl_queue c')"
    "reported (cl_trace c') = reported (cl_trace c) @ xs" using thread_step_lines[OF step] by blast
  from x(1) have "mset (que (cl_queue c)) + mset (map event_request xs) =
      mset (popped_lines c c') + mset (que (cl_queue c'))" by (metis mset_append)
  with b x(2) show ?thesis by (simp add: balanced_def accounted_def ac_simps)
qed

lemma balance_moves:
  "a' + s = a + s' \<Longrightarrow> s + x = a \<Longrightarrow> s' + x = a'" for a a' s s' x :: "'a multiset"
  by (metis add.assoc add.commute add_right_cancel)

lemma whole_step_inv:
  assumes i: "whole_inv K s" and step: "whole_step K n e s t"
  shows "whole_inv K t"
  using step
proof cases
  case (transport m m' c)
  with i have K: "posix_mq K" and b: "balanced K m c" by (simp_all add: whole_inv_def)
  have "balanced K m' (c\<lparr>cl_queue := line_queue m'\<rparr>)"
    using balance_moves[OF accounted_step[OF K transport(3)]] b by (simp add: balanced_def)
  with i transport show ?thesis by (simp add: whole_inv_def client_inv_queue)
next
  case (handler_breaks m m' c)
  with i show ?thesis by (simp add: whole_inv_def client_inv_def known_stops_def)
next
  case (program c c' m)
  from i program balanced_program[of K m c e c'] thread_step_inv[OF _ program(3)] show ?thesis
    by (simp add: whole_inv_def)
next
  case (program_ends c x m)
  with i thread_step_inv[OF _ program_ends(3)] show ?thesis by (simp add: whole_inv_def)
qed

interpretation whole: invariant_system "whole_init K n e" "whole_step K n e" "whole_inv K"
    for K :: "'k mq_ops" and n e
  by unfold_locales (rule whole_init_inv, assumption, rule whole_step_inv)

text \<open>C10: no request comes out of nowhere, none is doubled and none is lost: in every run of the whole
  system, the lines that the message queue accepted (each up to its first zero byte) together with one
  line for each event that the kernel reported to the epoll thread, with the descriptor and the
  flags of that event, are exactly, counted with multiplicity, the lines still in the kernel, those
  main threw away, those in a handler's hands, those in the end point's queue and those the end point
  has taken to interpret.\<close>

theorem requests_have_a_source:
  assumes "reachable (whole_init K n e) (whole_step K n e) (m, Inr c)"
  shows "mset (map c_text (sent m)) + mset (map event_request (reported (cl_trace c))) =
    mset (map c_text (waiting K (kern m))) + mset (map c_text (drained m)) + held (handlers m) +
    mset (que (cl_queue c)) + mset (taken m)"
  using whole.inv_reachable[OF assms] by (simp add: whole_inv_def balanced_def accounted_def)

section \<open>From the command line to the socket\<close>

lemma carries_whole:
  assumes "(carries K n)\<^sup>*\<^sup>* m m'" and "cl_queue c = line_queue m"
  shows "(whole_step K n e)\<^sup>*\<^sup>* (m, Inr c) (m', Inr (c\<lparr>cl_queue := line_queue m'\<rparr>))"
  using assms(1)
proof (induction rule: rtranclp_induct)
  case base
  from assms(2) have "c\<lparr>cl_queue := line_queue m\<rparr> = c" by simp
  then show ?case by simp
next
  case (step y z)
  from step(2) have "whole_step K n e (y, Inr (c\<lparr>cl_queue := line_queue y\<rparr>))
      (z, Inr (c\<lparr>cl_queue := line_queue y\<rparr>\<lparr>cl_queue := line_queue z\<rparr>))"
    unfolding carries_def by (blast intro: whole_step.transport)
  with step(3) show ?case by (auto intro: rtranclp.rtrancl_into_rtrancl)
qed

text \<open>Steps of the client's threads as steps of the whole.\<close>

lemma program_steps:
  assumes "(thread_step e)\<^sup>*\<^sup>* (Inr c) (Inr c')" and "cl_queue c = line_queue m"
  shows "\<exists>ts. (whole_step K n e)\<^sup>*\<^sup>* (m, Inr c) (m\<lparr>line_queue := cl_queue c', taken := ts\<rparr>, Inr c')"
proof -
  have "\<forall>c'. s = Inr c' \<longrightarrow>
      (\<exists>ts. (whole_step K n e)\<^sup>*\<^sup>* (m, Inr c) (m\<lparr>line_queue := cl_queue c', taken := ts\<rparr>, Inr c'))"
    if "(thread_step e)\<^sup>*\<^sup>* (Inr c) s" for s
    using that
  proof (induction rule: rtranclp_induct)
    case base
    from assms(2) have "m\<lparr>line_queue := cl_queue c, taken := taken m\<rparr> = m" by simp
    then show ?case by (metis rtranclp.rtrancl_refl sum.inject(2))
  next
    case (step s t)
    from step(2) obtain c1 where s: "s = Inr c1" by (cases rule: thread_step.cases) auto
    with step(3) obtain ts where
      1: "(whole_step K n e)\<^sup>*\<^sup>* (m, Inr c) (m\<lparr>line_queue := cl_queue c1, taken := ts\<rparr>, Inr c1)" by blast
    from step(2)[unfolded s] have "whole_step K n e (m\<lparr>line_queue := cl_queue c1, taken := ts\<rparr>, Inr c1)
        (m\<lparr>line_queue := cl_queue c2, taken := ts @ popped_lines c1 c2\<rparr>, Inr c2)" if "t = Inr c2" for c2
      using whole_step.program[of e c1 c2 K n "m\<lparr>line_queue := cl_queue c1, taken := ts\<rparr>"] that by simp
    with 1 show ?case by (blast intro: rtranclp.rtrancl_into_rtrancl)
  qed
  with assms(1) show ?thesis by blast
qed

text \<open>The arguments of a second process reach the program's queue.\<close>

lemma command_arrives:
  assumes "posix_mq K" and "mq_quiet K m" and "length (command_line args) < n"
    and "\<forall>w \<in> set args. c_string w" and "cl_queue c = line_queue m"
  obtains m1 where "(whole_step K n e)\<^sup>*\<^sup>* (m, Inr c) (m1, Inr (c\<lparr>cl_queue := line_queue m1\<rparr>))"
    and "sent m1 = sent m @ [command_line args]" and "que (line_queue m1) = que (line_queue m) @ [unwords args]"
    and "mq_quiet K m1"
proof -
  have line: "c_text (command_line args) = unwords args"
    using assms(4) command_line_unwords[of args] unwords_c_string[of args]
    by (simp add: c_text_def takeWhile_c_string)
  obtain m1 where m1: "(carries K n)\<^sup>*\<^sup>* m m1" "sent m1 = sent m @ [command_line args]"
    "line_queue m1 = push (unwords args) (line_queue m)" "mq_quiet K m1"
    using carries_one_line[OF assms(1-3)] line by auto
  from that[OF carries_whole[OF m1(1) assms(5)] m1(2) _ m1(4)] m1(3) show thesis
    by (simp add: tsq.queue_laws)
qed

text \<open>C5: a command can be carried out: let a second process be started with \<^verbatim>\<open>-i\<close>, an address,
  \<^verbatim>\<open>-m\<close> and words (none of them \<^verbatim>\<open>-i\<close> or \<^verbatim>\<open>-f\<close>, all arguments non-empty and without white
  space or zero bytes, the line shorter than a message), while the transport is at rest, the end
  point's queue is empty and the first peer that matches the address is connected to it, without
  TLS, has an empty queue and a thread that waits in \<^verbatim>\<open>pop\<close>. Then there is a run in which the
  line gets through the message queue, a handler and the end point's queue to this peer, which writes
  exactly these words, joined by single spaces, to its socket, and nothing else happens outside
  the program. (The run does without a tick of the timer, which would end the process.)\<close>

theorem command_carried_out:
  assumes "args = ''-i'' # a # ''-m'' # ws" and "\<forall>w \<in> set args. is_word w \<and> c_string w"
    and "validateAddrTCP a = Inr addr" and "\<forall>w \<in> set ws. w \<noteq> ''-i'' \<and> w \<noteq> ''-f''"
    and "posix_mq K" and "mq_quiet K m" and "length (command_line args) < n"
    and "cl_queue c = line_queue m" and "que (line_queue m) = []"
    and "peers (cl_end_point c) = ps @ p # qs"
    and "\<forall>q \<in> set ps. \<not> request_matches (addr_ip addr) (addr_port addr) CLOSED q"
    and "addr_ip addr \<noteq> []" and "addr_port addr \<noteq> 0"
    and "peer_ip p = addr_ip addr" and "peer_port p = addr_port addr"
    and "servant p = Waiting" and "que (peer_que p) = []" and "peer_fd p \<noteq> CLOSED" and "ssl (tls p) = 0"
  shows "\<exists>m' c' r. (whole_step K n e)\<^sup>*\<^sup>* (m, Inr c) (m', Inr c') \<and>
    sent m' = sent m @ [command_line args] \<and>
    cl_trace c' = cl_trace c @ [(Write (peer_fd p) (unwords ws), r)]"
proof -
  obtain m1 where m1: "(whole_step K n e)\<^sup>*\<^sup>* (m, Inr c) (m1, Inr (c\<lparr>cl_queue := line_queue m1\<rparr>))"
    "sent m1 = sent m @ [command_line args]" "que (line_queue m1) = que (line_queue m) @ [unwords args]"
    using command_arrives[OF assms(5-7) _ assms(8), of e] assms(2) by blast
  let ?c1 = "c\<lparr>cl_queue := line_queue m1\<rparr>"
  have "que (cl_queue ?c1) = unwords (''-i'' # a # ''-m'' # ws) # []" using m1(3) assms(1,9) by simp
  moreover have "is_word a" "\<forall>w \<in> set ws. is_word w \<and> w \<noteq> ''-i'' \<and> w \<noteq> ''-f''"
    using assms(1,2,4) by auto
  ultimately obtain c2 c3 r where t: "thread_step e (Inr ?c1) (Inr c2)" "thread_step e (Inr c2) (Inr c3)"
    "cl_trace c3 = cl_trace c @ [(Write (peer_fd p) (unwords ws), r)]"
    using message_threads[of ?c1 a ws "[]" addr ps p qs e] assms(3,10-19) by auto
  have "(thread_step e)\<^sup>*\<^sup>* (Inr ?c1) (Inr c3)"
    using t(1,2) by (auto intro: converse_rtranclp_into_rtranclp)
  from program_steps[OF this, of m1 K n] obtain ts where
    "(whole_step K n e)\<^sup>*\<^sup>* (m1, Inr ?c1) (m1\<lparr>line_queue := cl_queue c3, taken := ts\<rparr>, Inr c3)" by auto
  with m1(1) have "(whole_step K n e)\<^sup>*\<^sup>* (m, Inr c) (m1\<lparr>line_queue := cl_queue c3, taken := ts\<rparr>, Inr c3)"
    by (rule rtranclp_trans)
  with t(3) m1(2) show ?thesis by fastforce
qed

section \<open>Instances\<close>

lemma demo_whole_start:
  "\<exists>tr. reachable (whole_init list_mq 8192 first_env) (whole_step list_mq 8192 first_env)
    (demo_mq False, Inr (first_client tr))"
proof -
  obtain tr where m: "main first_env [] [] 0 0 [] = Some (Inr (6, \<lparr>ep_epoll = \<lparr>epoll_fd = 3, waiter = True\<rparr>,
     peers = [IO_fields [] 0 0 new_TLS]\<rparr>), tr)" using first_main by blast
  then have "client_init first_env (Inr (first_client tr))"
    by (auto simp: client_init_def first_client_def)
  moreover have "mq_step list_mq 8192 (demo_mq True) (demo_mq False)"
    using mq_step.drain_end[of "demo_mq True" list_mq 8192] by (simp add: demo_mq_def list_mq_def)
  moreover have "first_client tr = (first_client tr)\<lparr>cl_queue := line_queue (demo_mq False)\<rparr>"
    by (simp add: first_client_def demo_mq_def)
  ultimately have "whole_init list_mq 8192 first_env (demo_mq False, Inr (first_client tr))"
    using list_mq_posix demo_mq_start unfolding whole_init_def
    by (intro exI[of _ "demo_mq True"] exI[of _ "first_client tr"])
      (auto simp: demo_mq_def intro: r_into_rtranclp)
  then show ?thesis by (blast intro: reachable_init)
qed

theorem requests_have_a_source_witness:
  "\<exists>m c. reachable (whole_init list_mq 8192 first_env) (whole_step list_mq 8192 first_env) (m, Inr c) \<and>
    sent m = [''-r''] \<and> mset (map event_request (reported (cl_trace c))) + {#''-r''#} =
    mset (map c_text (waiting list_mq (kern m))) + mset (map c_text (drained m)) + held (handlers m) +
    mset (que (cl_queue c)) + mset (taken m)"
proof -
  obtain tr where 0: "reachable (whole_init list_mq 8192 first_env) (whole_step list_mq 8192 first_env)
    (demo_mq False, Inr (first_client tr))" using demo_whole_start by blast
  obtain m where m: "(carries list_mq 8192)\<^sup>*\<^sup>* (demo_mq False) m" "sent m = sent (demo_mq False) @ [''-r'']"
    using carries_one_line[OF list_mq_posix demo_mq_quiet, of "''-r''" 8192] by auto
  let ?c = "(first_client tr)\<lparr>cl_queue := line_queue m\<rparr>"
  have q: "cl_queue (first_client tr) = line_queue (demo_mq False)" by (simp add: first_client_def demo_mq_def)
  have r: "reachable (whole_init list_mq 8192 first_env) (whole_step list_mq 8192 first_env) (m, Inr ?c)"
    by (rule reachable_steps[OF carries_whole[OF m(1) q] 0])
  have s: "sent m = [''-r'']" using m(2) by (simp add: demo_mq_def)
  have t: "c_text ''-r'' = ''-r''" by (simp add: c_text_def)
  from requests_have_a_source[OF r] s t r show ?thesis
    by (intro exI[of _ m] exI[of _ ?c]) simp
qed

theorem command_carried_out_witness:
  "\<exists>m' c' r. (whole_step list_mq 8192 first_env)\<^sup>*\<^sup>* (demo_mq False, Inr ((linked_client [])\<lparr>cl_queue := new_queue\<rparr>))
      (m', Inr c') \<and>
    sent m' = [command_line [''-i'', ''10.0.0.1:80'', ''-m'', ''hi'', ''you'']] \<and>
    cl_trace c' = [(Write 5 ''hi you'', r)]"
proof -
  let ?c = "(linked_client [])\<lparr>cl_queue := new_queue\<rparr>"
  let ?args = "[''-i'', ''10.0.0.1:80'', ''-m'', ''hi'', ''you'']"
  have "\<exists>m' c' r. (whole_step list_mq 8192 first_env)\<^sup>*\<^sup>* (demo_mq False, Inr ?c) (m', Inr c') \<and>
      sent m' = sent (demo_mq False) @ [command_line ?args] \<and>
      cl_trace c' = cl_trace ?c @ [(Write (peer_fd linked_peer) (unwords [''hi'', ''you'']), r)]"
    by (rule command_carried_out[OF refl _ demo_line_address _ list_mq_posix demo_mq_quiet, of _ _ _ "[]" linked_peer "[]"])
      (simp_all add: is_word_def is_space_def c_string_def command_line_def linked_defs demo_mq_def)
  then show ?thesis by (simp add: linked_defs demo_mq_def)
qed

end
