(* ===== verification/Session.thy ===== *)
theory Session
  imports Whole_System
begin

text \<open>
  A session from its start: the program has just started and has one free peer; a second process
  names a server, a third one sends it words.
\<close>

section \<open>Rounds of a peer's thread in the running program\<close>

lemma appendNotificationNode_peers [simp]:
  "appendNotificationNode e (ep\<lparr>peers := x\<rparr>) = appendNotificationNode e ep"
  by (simp add: appendNotificationNode_def fun_eq_iff)

lemma thread_rounds_steps:
  "thread_rounds e (appendNotificationNode e (cl_end_point c)) k (p, cl_trace c) = Some (p', tr') \<Longrightarrow>
    peers (cl_end_point c) = ps @ p # qs \<Longrightarrow>
    (thread_step e)\<^sup>*\<^sup>* (Inr c)
      (Inr (c\<lparr>cl_end_point := (cl_end_point c)\<lparr>peers := ps @ p' # qs\<rparr>, cl_trace := tr'\<rparr>))"
proof (induction k arbitrary: c p)
  case 0
  then have "c\<lparr>cl_end_point := (cl_end_point c)\<lparr>peers := ps @ p' # qs\<rparr>, cl_trace := tr'\<rparr> = c"
    by (cases c; cases "cl_end_point c") auto
  then show ?case by simp
next
  case (Suc k)
  then obtain p1 tr1 where t: "threadFunc e (appendNotificationNode e (cl_end_point c)) p (cl_trace c) = Some (p1, tr1)"
    and k: "thread_rounds e (appendNotificationNode e (cl_end_point c)) k (p1, tr1) = Some (p', tr')"
    by (auto split: option.splits)
  let ?c = "c\<lparr>cl_end_point := (cl_end_point c)\<lparr>peers := ps @ p1 # qs\<rparr>, cl_trace := tr1\<rparr>"
  have "thread_step e (Inr c) (Inr ?c)" by (rule thread_step.peer[OF Suc.prems(2) t])
  moreover have "(thread_step e)\<^sup>*\<^sup>* (Inr ?c)
      (Inr (c\<lparr>cl_end_point := (cl_end_point c)\<lparr>peers := ps @ p' # qs\<rparr>, cl_trace := tr'\<rparr>))"
    using Suc.IH[of ?c p1] k by simp
  ultimately show ?case by (rule converse_rtranclp_into_rtranclp)
qed

section \<open>From the name of a server to a connection\<close>

lemma connect_line:
  assumes "is_word a" and "validateAddrTCP a = Inr addr"
  shows "interpret_stream (unwords [''-i'', a]) no_arguments =
    Inr (Some (no_arguments\<lparr>arg_ip := addr_ip addr, arg_port := addr_port addr\<rparr>))"
  unfolding interpret_stream_line using assms by (subst words_unwords) (auto simp: is_word_def is_space_def)

definition fresh_peer :: IO where
  "fresh_peer = IO_fields [] 0 0 new_TLS"

definition linked :: "addrTCP \<Rightarrow> int \<Rightarrow> IO" where
  "linked addr fd = fresh_peer\<lparr>peer_ip := addr_ip addr, peer_port := addr_port addr, peer_fd := fd\<rparr>"

lemma connect_threads:
  assumes "accepting e fd" and "is_word a" and "validateAddrTCP a = Inr addr"
    and "addr_ip addr \<noteq> []" and "addr_port addr \<noteq> 0"
    and "que (cl_queue c) = [unwords [''-i'', a]]" and "peers (cl_end_point c) = [fresh_peer]"
  shows "\<exists>run r1 r2. (thread_step e)\<^sup>*\<^sup>* (Inr c)
    (Inr (c\<lparr>cl_queue := \<lparr>que = []\<rparr>, cl_end_point := (cl_end_point c)\<lparr>peers := [linked addr fd]\<rparr>,
      cl_trace := cl_trace c @ run @ [(Epoll_ctl_add (epoll_fd (ep_epoll (cl_end_point c))) fd default_events, r1),
        (Sleep 5, r2)]\<rparr>)) \<and> connects_to (addr_ip addr) (addr_port addr) fd run"
proof -
  let ?st = "no_arguments\<lparr>arg_ip := addr_ip addr, arg_port := addr_port addr\<rparr>"
  let ?p = "(linked addr CLOSED)\<lparr>peer_que := \<lparr>que = [(CONNECT, [])]\<rparr>\<rparr>"
  let ?c = "c\<lparr>cl_end_point := (cl_end_point c)\<lparr>peers := [?p]\<rparr>, cl_queue := \<lparr>que = []\<rparr>\<rparr>"
  have t: "takes ?st fresh_peer"
    using assms(4,5) by (simp add: request_matches_def no_arguments_def fresh_peer_def IO_fields_def)
  have "(assign_master (arg_ip ?st) (arg_port ?st) fresh_peer)
      \<lparr>peer_que := push (notification ?st, arg_msg ?st) (peer_que fresh_peer)\<rparr> = ?p"
    by (simp add: assign_master_def linked_def fresh_peer_def IO_fields_def no_arguments_def bot_req_def queue_defs)
  with stdin_step[OF assms(6) connect_line[OF assms(2,3)], of "[]" fresh_peer "[]" e] t assms(7)
  have 1: "thread_step e (Inr c) (Inr ?c)" by (cases "cl_queue c") simp
  have "locIp ?p = []" "locPort ?p = 0" "ssl (tls ?p) = 0" "peer_fd ?p = CLOSED" "servant ?p = Waiting"
    "que (peer_que ?p) = (CONNECT, []) # []" by (simp_all add: linked_def fresh_peer_def fresh)
  from connects_in_three_rounds[OF assms(1) this, of "cl_end_point ?c" "cl_trace ?c"] obtain run r1 r2 where
    3: "thread_rounds e (appendNotificationNode e (cl_end_point ?c)) 3 (?p, cl_trace ?c) =
      Some (?p\<lparr>peer_que := \<lparr>que = []\<rparr>, peer_fd := fd\<rparr>, cl_trace ?c @ run @
        [(Epoll_ctl_add (epoll_fd (ep_epoll (cl_end_point ?c))) fd default_events, r1), (Sleep 5, r2)])"
    and d: "connects_to (peer_ip ?p) (peer_port ?p) fd run" by blast
  have p: "?p\<lparr>peer_que := \<lparr>que = []\<rparr>, peer_fd := fd\<rparr> = linked addr fd"
    by (simp add: linked_def fresh_peer_def IO_fields_def new_queue_def)
  have ps: "peers (cl_end_point ?c) = [] @ ?p # []" by simp
  have "(thread_step e)\<^sup>*\<^sup>* (Inr ?c) (Inr (?c\<lparr>cl_end_point := (cl_end_point ?c)\<lparr>peers := [] @ linked addr fd # []\<rparr>,
      cl_trace := cl_trace ?c @ run @
        [(Epoll_ctl_add (epoll_fd (ep_epoll (cl_end_point ?c))) fd default_events, r1), (Sleep 5, r2)]\<rparr>))"
    by (rule thread_rounds_steps[OF 3[unfolded p] ps])
  with 1 have "(thread_step e)\<^sup>*\<^sup>* (Inr c) (Inr (?c\<lparr>cl_end_point := (cl_end_point ?c)\<lparr>peers := [] @ linked addr fd # []\<rparr>,
      cl_trace := cl_trace ?c @ run @
        [(Epoll_ctl_add (epoll_fd (ep_epoll (cl_end_point ?c))) fd default_events, r1), (Sleep 5, r2)]\<rparr>))"
    by (rule converse_rtranclp_into_rtranclp)
  then show ?thesis using d by (intro exI[of _ run] exI[of _ r1] exI[of _ r2]) (simp add: linked_def)
qed

text \<open>C2: a session can work from its start. Let the transport be at rest, the program have one free peer
  whose two uninitialised ports happen to be 0, so that it does not bind to a local address, without
  TLS, and let the server accept, at once or after a connect in progress. When of two further
  processes the one names the server's address and the other one has words for it (none of them
  \<^verbatim>\<open>-i\<close> or \<^verbatim>\<open>-f\<close>, all arguments non-empty and without white space or zero bytes, the lines shorter
  than a message), there is a run in which the program connects to an address that the resolver
  gives for the server, puts the connection under the watch of epoll and writes exactly those words
  to it; apart from the connecting itself and one pause nothing else happens outside the
  program. (The run does without a tick of the timer, which would end the process.)\<close>

theorem first_message_sent:
  assumes "posix_mq K" and "mq_quiet K m" and "cl_queue c = line_queue m" and "que (line_queue m) = []"
    and "accepting e fd" and "validateAddrTCP a = Inr addr" and "addr_ip addr \<noteq> []" and "addr_port addr \<noteq> 0"
    and "peers (cl_end_point c) = [IO_fields [] 0 0 new_TLS]"
    and "\<forall>w \<in> set (a # ws). is_word w \<and> c_string w" and "\<forall>w \<in> set ws. w \<noteq> ''-i'' \<and> w \<noteq> ''-f''"
    and "length (command_line [''-i'', a]) < n" and "length (command_line (''-i'' # a # ''-m'' # ws)) < n"
  shows "\<exists>m' c' run r1 r2 r3. (whole_step K n e)\<^sup>*\<^sup>* (m, Inr c) (m', Inr c') \<and>
    sent m' = sent m @ [command_line [''-i'', a], command_line (''-i'' # a # ''-m'' # ws)] \<and>
    connects_to (addr_ip addr) (addr_port addr) fd run \<and>
    cl_trace c' = cl_trace c @ run @ [(Epoll_ctl_add (epoll_fd (ep_epoll (cl_end_point c))) fd default_events, r1),
      (Sleep 5, r2), (Write fd (unwords ws), r3)]"
proof -
  obtain m1 where m1: "(whole_step K n e)\<^sup>*\<^sup>* (m, Inr c) (m1, Inr (c\<lparr>cl_queue := line_queue m1\<rparr>))"
    "sent m1 = sent m @ [command_line [''-i'', a]]" "que (line_queue m1) = [unwords [''-i'', a]]"
    "mq_quiet K m1"
    using command_arrives[OF assms(1,2,12) _ assms(3), of e] assms(4,10) by (auto simp: c_string_def)
  let ?c1 = "c\<lparr>cl_queue := line_queue m1\<rparr>"
  obtain run r1 r2 where t: "(thread_step e)\<^sup>*\<^sup>* (Inr ?c1)
    (Inr (?c1\<lparr>cl_queue := \<lparr>que = []\<rparr>, cl_end_point := (cl_end_point ?c1)\<lparr>peers := [linked addr fd]\<rparr>,
      cl_trace := cl_trace ?c1 @ run @ [(Epoll_ctl_add (epoll_fd (ep_epoll (cl_end_point ?c1))) fd default_events, r1),
        (Sleep 5, r2)]\<rparr>))"
    and d: "connects_to (addr_ip addr) (addr_port addr) fd run"
    using connect_threads[OF assms(5) _ assms(6-8), of ?c1] m1(3) assms(9,10) by (auto simp: fresh_peer_def)
  let ?c2 = "?c1\<lparr>cl_queue := \<lparr>que = []\<rparr>, cl_end_point := (cl_end_point ?c1)\<lparr>peers := [linked addr fd]\<rparr>,
      cl_trace := cl_trace ?c1 @ run @ [(Epoll_ctl_add (epoll_fd (ep_epoll (cl_end_point ?c1))) fd default_events, r1),
        (Sleep 5, r2)]\<rparr>"
  obtain ts where s2: "(whole_step K n e)\<^sup>*\<^sup>* (m1, Inr ?c1) (m1\<lparr>line_queue := cl_queue ?c2, taken := ts\<rparr>, Inr ?c2)"
    using program_steps[OF t, of m1 K n] by auto
  let ?m2 = "m1\<lparr>line_queue := cl_queue ?c2, taken := ts\<rparr>"
  have q2: "mq_quiet K ?m2" using m1(4) by (simp add: mq_quiet_def)
  obtain m3 where m3: "(whole_step K n e)\<^sup>*\<^sup>* (?m2, Inr ?c2) (m3, Inr (?c2\<lparr>cl_queue := line_queue m3\<rparr>))"
    "sent m3 = sent ?m2 @ [command_line (''-i'' # a # ''-m'' # ws)]"
    "que (line_queue m3) = [unwords (''-i'' # a # ''-m'' # ws)]"
    using command_arrives[OF assms(1) q2 assms(13), of ?c2 e] assms(10) by (auto simp: c_string_def)
  let ?c3 = "?c2\<lparr>cl_queue := line_queue m3\<rparr>"
  have "linked addr fd \<in> {p. peer_ip p = addr_ip addr \<and> peer_port p = addr_port addr \<and> servant p = Waiting \<and>
      que (peer_que p) = [] \<and> peer_fd p \<noteq> CLOSED \<and> ssl (tls p) = 0 \<and> peer_fd p = fd}"
    using assms(5) by (simp add: linked_def fresh_peer_def fresh accepting_def)
  then obtain c4 c5 r3 where u: "thread_step e (Inr ?c3) (Inr c4)" "thread_step e (Inr c4) (Inr c5)"
    "cl_trace c5 = cl_trace ?c3 @ [(Write fd (unwords ws), r3)]"
    using message_threads[of ?c3 a ws "[]" addr "[]" "linked addr fd" "[]" e] m3(3) assms(6-8,10,11) by auto
  have "(thread_step e)\<^sup>*\<^sup>* (Inr ?c3) (Inr c5)"
    using u(1,2) by (auto intro: converse_rtranclp_into_rtranclp)
  from program_steps[OF this, of m3 K n] obtain us where
    "(whole_step K n e)\<^sup>*\<^sup>* (m3, Inr ?c3) (m3\<lparr>line_queue := cl_queue c5, taken := us\<rparr>, Inr c5)" by auto
  with m1(1) s2 m3(1) have "(whole_step K n e)\<^sup>*\<^sup>* (m, Inr c) (m3\<lparr>line_queue := cl_queue c5, taken := us\<rparr>, Inr c5)"
    by (blast intro: rtranclp_trans)
  then show ?thesis using u(3) m3(2) m1(2) d
    by (intro exI[of _ "m3\<lparr>line_queue := cl_queue c5, taken := us\<rparr>"] exI[of _ c5] exI[of _ run] exI[of _ r1]
        exI[of _ r2] exI[of _ r3]) simp
qed

theorem first_message_sent_witness:
  "\<exists>m' c' run r1 r2 r3. (whole_step list_mq 8192 accepting_env)\<^sup>*\<^sup>* (demo_mq False, Inr (first_client [])) (m', Inr c') \<and>
    connects_to ''10.0.0.1'' 80 5 run \<and>
    cl_trace c' = run @ [(Epoll_ctl_add 3 5 default_events, r1), (Sleep 5, r2), (Write 5 ''hi you'', r3)]"
proof -
  note e = accepting_env_accepts
  have "\<exists>m' c' run r1 r2 r3. (whole_step list_mq 8192 accepting_env)\<^sup>*\<^sup>* (demo_mq False, Inr (first_client [])) (m', Inr c') \<and>
    sent m' = sent (demo_mq False) @ [command_line [''-i'', ''10.0.0.1:80''],
      command_line (''-i'' # ''10.0.0.1:80'' # ''-m'' # [''hi'', ''you''])] \<and>
    connects_to (addr_ip \<lparr>addr_ip = ''10.0.0.1'', addr_port = 80\<rparr>) (addr_port \<lparr>addr_ip = ''10.0.0.1'', addr_port = 80\<rparr>) 5 run \<and>
    cl_trace c' = cl_trace (first_client []) @ run @
      [(Epoll_ctl_add (epoll_fd (ep_epoll (cl_end_point (first_client [])))) 5 default_events, r1),
        (Sleep 5, r2), (Write 5 (unwords [''hi'', ''you'']), r3)]"
    by (rule first_message_sent[OF list_mq_posix demo_mq_quiet _ _ e demo_line_address])
      (simp_all add: first_client_def demo_mq_def new_queue_def is_word_def is_space_def c_string_def command_line_def)
  then obtain m' c' run r1 r2 r3 where
    "(whole_step list_mq 8192 accepting_env)\<^sup>*\<^sup>* (demo_mq False, Inr (first_client [])) (m', Inr c')"
    "connects_to ''10.0.0.1'' 80 5 run"
    "cl_trace c' = run @ [(Epoll_ctl_add 3 5 default_events, r1), (Sleep 5, r2), (Write 5 ''hi you'', r3)]"
    by (auto simp: first_client_def)
  then show ?thesis by blast
qed

end
