(* ===== verification/Registry.thy ===== *)
theory Registry
  imports Client_Descriptors
begin

text \<open>
  What the end point and its peers are together, seen from outside: a registry of servers. For
  each address it has been given it keeps the queries that are waiting there, first come first
  served. Each step of the program is labelled with what it means for the registry, read off from
  the request line, the peer and the answer to its \<^verbatim>\<open>read\<close> alone; replaying the labels of a
  run on an empty registry gives the queues of the peers.
\<close>

section \<open>The specification\<close>






section \<open>The registry of a list of peers\<close>








section \<open>The steps of the program, labelled\<close>








section \<open>What the steps do to the registry\<close>













end
