(* ===== verification/Peer_Moments.thy ===== *)
theory Peer_Moments
  imports Peer_Life
begin

text \<open>
  A peer's thread below the level of its rounds. In Peer_Thread one step is a whole round: taking
  a query and carrying it out, an attempt to connect, a read with what follows from it. Here a
  round is cut wherever the thread touches a member that \<^verbatim>\<open>IO::request\<close> reads or writes as well
  (\<^verbatim>\<open>_fd\<close> and \<^verbatim>\<open>_que\<close>), and the manager delivers requests between any two pieces,
  so also during the ten seconds that an attempt can take. The steps by rounds lose nothing
  by it: that is the simulation at the end.
\<close>

section \<open>The thread in pieces\<close>

text \<open>
  Where in its round the thread is. \<open>Head\<close> is the head of the loop that \<open>servant\<close> names. The
  others are inside of a round: a query in hand; an attempt over, its result not yet in
  \<^verbatim>\<open>_fd\<close>; the result stored; before \<^verbatim>\<open>sleep\<close>; a result of \<^verbatim>\<open>read\<close> in hand;
  the descriptor closed, but \<^verbatim>\<open>_fd\<close> not yet reset.
\<close>

datatype moment =
    Head
  | Popped req string
  | Tried int
  | Stored
  | Sleeping
  | Got int
  | Hung

text \<open>\<^verbatim>\<open>IO::connect\<close> after \<^verbatim>\<open>_fd\<close> is assigned.\<close>

definition announce :: "env \<Rightarrow> manager \<Rightarrow> IO \<Rightarrow> trace \<Rightarrow> bool \<times> IO \<times> trace" where
  "announce e mgr io tr =
     (if peer_fd io \<noteq> CLOSED
      then (let (ok, t, tr1) = (if ssl (tls io) = 0 then (True, tls io, tr)
                                else tls_connect e (peer_fd io) (tls io) tr);
                io1 = io\<lparr>tls := t\<rparr>
            in if ok then (True, io1, notifyManager mgr io1 tr1) else (False, io1, tr1))
      else (False, io, tr))"

inductive thread_piece ::
  "env \<Rightarrow> manager \<Rightarrow> IO \<times> moment \<times> trace \<Rightarrow> IO \<times> moment \<times> trace \<Rightarrow> bool" for e mgr where
  take_query: "servant io = Waiting \<Longrightarrow> pop (peer_que io) = Some ((r, m), q) \<Longrightarrow>
    thread_piece e mgr (io, Head, tr) (io\<lparr>peer_que := q\<rparr>, Popped r m, tr)"
| drop_query: "peer_fd io = CLOSED \<Longrightarrow> r \<noteq> CONNECT \<Longrightarrow>
    thread_piece e mgr (io, Popped r m, tr) (io, Head, tr)"
| to_connect: "thread_piece e mgr (io, Popped CONNECT m, tr) (io\<lparr>servant := Connecting\<rparr>, Head, tr)"
| to_read: "peer_fd io \<noteq> CLOSED \<Longrightarrow>
    thread_piece e mgr (io, Popped READ m, tr) (io\<lparr>servant := Reading False\<rparr>, Head, tr)"
| to_write: "peer_fd io \<noteq> CLOSED \<Longrightarrow>
    thread_piece e mgr (io, Popped WRITE m, tr) (io, Head, snd (IO_write e io m tr))"
| to_close: "peer_fd io \<noteq> CLOSED \<Longrightarrow>
    thread_piece e mgr (io, Popped CLOSE m, tr) (io, Hung, snd (closeFd e (peer_fd io) tr))"
| forget: "thread_piece e mgr (io, Hung, tr) (io\<lparr>peer_fd := CLOSED\<rparr>, Head, tr)"
| attempt: "servant io = Connecting \<Longrightarrow> peer_fd io = CLOSED \<Longrightarrow> connectTCP e io tr = (fd, tr1) \<Longrightarrow>
    thread_piece e mgr (io, Head, tr) (io, Tried fd, tr1)"
| store: "thread_piece e mgr (io, Tried fd, tr) (io\<lparr>peer_fd := fd\<rparr>, Stored, tr)"
| tell: "announce e mgr io tr = (ok, io1, tr1) \<Longrightarrow> thread_piece e mgr (io, Stored, tr) (io1, Sleeping, tr1)"
| pause: "thread_piece e mgr (io, Sleeping, tr) (io, Head, snd (sys e (Sleep 5) tr))"
| connected: "servant io = Connecting \<Longrightarrow> peer_fd io \<noteq> CLOSED \<Longrightarrow>
    thread_piece e mgr (io, Head, tr) (io\<lparr>servant := Waiting\<rparr>, Head, tr)"
| call_read: "servant io = Reading c \<Longrightarrow> IO_read e io tr = (res, tr1) \<Longrightarrow>
    thread_piece e mgr (io, Head, tr) (io, Got res, tr1)"
| data: "res \<noteq> 0 \<Longrightarrow> res \<noteq> -1 \<Longrightarrow> thread_piece e mgr (io, Got res, tr) (io, Head, tr)"
| end_of_file: "thread_piece e mgr (io, Got 0, tr)
    (io\<lparr>peer_que := clear (peer_que io), servant := Reading True\<rparr>, Head, tr)"
| leave: "servant io = Reading False \<Longrightarrow>
    thread_piece e mgr (io, Got (-1), tr) (io\<lparr>servant := Waiting\<rparr>, Head, tr)"
| leave_and_close: "servant io = Reading True \<Longrightarrow>
    thread_piece e mgr (io, Got (-1), tr) (io\<lparr>servant := Waiting\<rparr>, Hung, snd (closeFd e (peer_fd io) tr))"

inductive moment_step ::
  "env \<Rightarrow> manager \<Rightarrow> IO \<times> moment \<times> trace \<Rightarrow> IO \<times> moment \<times> trace \<Rightarrow> bool" for e mgr where
  piece: "thread_piece e mgr s t \<Longrightarrow> moment_step e mgr s t"
| asked: "request ip port fd r msg io = (True, io') \<Longrightarrow> moment_step e mgr (io, mo, tr) (io', mo, tr)"

text \<open>The pieces together are the operations of Peer_Connect and Peer_Thread.\<close>

lemma IO_connect_pieces:
  "IO_connect e mgr io tr = (case connectTCP e io tr of (fd, tr1) \<Rightarrow> announce e mgr (io\<lparr>peer_fd := fd\<rparr>) tr1)"
  by (simp add: IO_connect_def announce_def Let_def split: prod.split)

section \<open>Rounds are atomic\<close>

text \<open>
  The state by rounds that belongs to a moment. Up to the piece that shows (a descriptor stored or
  forgotten, a queue emptied), the round has not begun yet and the query is back in the queue;
  after it, the round is over.
\<close>

definition with_query :: "query \<Rightarrow> IO \<Rightarrow> IO" where
  "with_query x io = io\<lparr>peer_que := \<lparr>que = x # que (peer_que io)\<rparr>\<rparr>"

inductive at_round :: "env \<Rightarrow> manager \<Rightarrow> IO \<times> moment \<times> trace \<Rightarrow> IO \<times> trace \<Rightarrow> bool" for e mgr where
  head: "at_round e mgr (io, Head, tr) (io, tr)"
| popped: "servant io = Waiting \<Longrightarrow> at_round e mgr (io, Popped r m, tr) (with_query (r, m) io, tr)"
| hung_query: "servant io = Waiting \<Longrightarrow> peer_fd io \<noteq> CLOSED \<Longrightarrow>
    at_round e mgr (io, Hung, snd (closeFd e (peer_fd io) tr)) (with_query (CLOSE, m) io, tr)"
| hung_read: "servant io = Waiting \<Longrightarrow> IO_read e io tr = (-1, tr1) \<Longrightarrow>
    at_round e mgr (io, Hung, snd (closeFd e (peer_fd io) tr1)) (io\<lparr>servant := Reading True\<rparr>, tr)"
| tried: "servant io = Connecting \<Longrightarrow> peer_fd io = CLOSED \<Longrightarrow> connectTCP e io tr = (fd, tr1) \<Longrightarrow>
    at_round e mgr (io, Tried fd, tr1) (io, tr)"
| stored: "announce e mgr io tr = (ok, io1, tr1) \<Longrightarrow>
    at_round e mgr (io, Stored, tr) (io1, snd (sys e (Sleep 5) tr1))"
| sleeping: "at_round e mgr (io, Sleeping, tr) (io, snd (sys e (Sleep 5) tr))"
| got: "servant io = Reading c \<Longrightarrow> IO_read e io tr = (res, tr1) \<Longrightarrow>
    at_round e mgr (io, Got res, tr1) (io, tr)"

inductive_cases at_round_HeadE: "at_round e mgr (io, Head, tr) s"
inductive_cases at_round_PoppedE: "at_round e mgr (io, Popped r m, tr) s"
inductive_cases at_round_HungE: "at_round e mgr (io, Hung, tr) s"
inductive_cases at_round_TriedE: "at_round e mgr (io, Tried fd, tr) s"
inductive_cases at_round_StoredE: "at_round e mgr (io, Stored, tr) s"
inductive_cases at_round_SleepingE: "at_round e mgr (io, Sleeping, tr) s"
inductive_cases at_round_GotE: "at_round e mgr (io, Got res, tr) s"

lemmas at_roundE = at_round_HeadE at_round_PoppedE at_round_HungE at_round_TriedE at_round_StoredE
  at_round_SleepingE at_round_GotE

lemma queue_eta: "\<lparr>que = que q\<rparr> = q" "(io :: IO)\<lparr>peer_que := peer_que io\<rparr> = io"
  by simp_all

lemma threadFunc_with_query:
  "servant io = Waiting \<Longrightarrow> threadFunc e mgr (with_query (r, m) io) tr =
    (if peer_fd io = CLOSED \<and> r \<noteq> CONNECT then Some (io, tr)
     else Some (case r of
         CONNECT \<Rightarrow> (io\<lparr>servant := Connecting\<rparr>, tr)
       | READ \<Rightarrow> (io\<lparr>servant := Reading False\<rparr>, tr)
       | WRITE \<Rightarrow> (io, snd (IO_write e io m tr))
       | CLOSE \<Rightarrow> snd (IO_close e io tr)))"
  by (subst threadFunc_pop[where x = "(r, m)" and xs = "que (peer_que io)"])
    (simp_all add: with_query_def Let_def queue_eta cong: req.case_cong)

lemma pop_with_query: "pop (peer_que io) = Some (x, q) \<Longrightarrow> with_query x (io\<lparr>peer_que := q\<rparr>) = io"
  by (cases "que (peer_que io)") (auto simp: pop_def with_query_def)

lemma with_query_simps [simp]:
  "peer_ip (with_query x io) = peer_ip io" "servant (with_query x io) = servant io"
  "peer_fd (with_query x io) = peer_fd io" "peer_port (with_query x io) = peer_port io"
  "tls (with_query x io) = tls io" "que (peer_que (with_query x io)) = x # que (peer_que io)"
  by (simp_all add: with_query_def)

text \<open>A step of the thread that is a whole round.\<close>

lemma own_round:
  "threadFunc e mgr io tr = Some (io', tr') \<Longrightarrow> (life_step e mgr)\<^sup>*\<^sup>* (io, tr) (io', tr')"
  by (blast intro: life_step.own)

lemma connecting_by_pieces:
  assumes "servant io = Connecting" and "peer_fd io = CLOSED" and "connectTCP e io tr = (fd, tr1)"
    and "announce e mgr (io\<lparr>peer_fd := fd\<rparr>) tr1 = (ok, io1, tr2)"
  shows "threadFunc e mgr io tr = Some (io1, snd (sys e (Sleep 5) tr2))"
  using assms by (simp add: threadFunc_def connecting_round_def IO_connect_pieces sys_eq)

text \<open>\<^verbatim>\<open>read\<close> does not look at the queue or at where the thread is.\<close>

lemma IO_read_other [simp]:
  "IO_read e (io\<lparr>peer_que := q\<rparr>) tr = IO_read e io tr"
  "IO_read e (io\<lparr>servant := s\<rparr>) tr = IO_read e io tr"
  by (simp_all add: IO_read_def split_beta Let_def)

lemma close_by_pieces:
  assumes "at_round e mgr (io, Hung, tr) (io0, tr0)"
  shows "threadFunc e mgr io0 tr0 = Some (io\<lparr>peer_fd := CLOSED\<rparr>, tr)"
  using assms
proof cases
  case (hung_query m)
  then show ?thesis by (auto simp: threadFunc_with_query IO_close_eq)
next
  case (hung_read tr1)
  then show ?thesis by (auto simp: threadFunc_def reading_round_def IO_close_eq)
qed

text \<open>The last piece of a round completes it, except for the pause, which comes after all that shows.\<close>

lemma last_piece:
  assumes "thread_piece e mgr (io, mo, tr) (io', Head, tr')" and "at_round e mgr (io, mo, tr) (io0, tr0)"
    and "mo \<noteq> Sleeping"
  shows "threadFunc e mgr io0 tr0 = Some (io', tr')"
  using assms
proof cases
  case forget
  with assms(2) close_by_pieces show ?thesis by blast
next
  case connected
  with assms(2) show ?thesis by (auto elim!: at_roundE simp: threadFunc_def connecting_round_def)
next
  case (data res)
  with assms(2) show ?thesis by (auto elim!: at_roundE simp: threadFunc_def reading_round_def)
next
  case end_of_file
  with assms(2) show ?thesis by (auto elim!: at_roundE simp: threadFunc_def reading_round_def)
next
  case leave
  with assms(2) show ?thesis by (auto elim!: at_roundE simp: threadFunc_def reading_round_def)
qed (use assms(2) in \<open>auto elim!: at_roundE simp: threadFunc_with_query\<close>)

text \<open>What a piece of the thread is to the peer by rounds: nothing yet, or the whole round.\<close>

lemma piece_cases:
  assumes "at_round e mgr (io, mo, tr) (io0, tr0)" and p: "thread_piece e mgr (io, mo, tr) (io', mo', tr')"
  shows "at_round e mgr (io', mo', tr') (io0, tr0) \<or>
    (\<exists>s. threadFunc e mgr io0 tr0 = Some s \<and> at_round e mgr (io', mo', tr') s)"
proof (cases "mo' = Head \<and> mo \<noteq> Sleeping")
  case True
  with last_piece assms show ?thesis by (blast intro: at_round.head)
next
  case False
  from p show ?thesis
  proof cases
    case (take_query r m q)
    with assms(1) have "servant io' = Waiting" "with_query (r, m) io' = io" "io0 = io" "tr0 = tr"
      by (auto simp: pop_with_query elim!: at_roundE)
    with at_round.popped[of io' e mgr r m tr] take_query show ?thesis by simp
  next
    case (to_close m)
    with assms(1) show ?thesis by (auto elim!: at_roundE intro: at_round.hung_query simp del: closeFd_eq)
  next
    case (attempt fd)
    with assms(1) show ?thesis by (auto elim!: at_roundE intro: at_round.tried)
  next
    case (store fd)
    obtain ok io1 tr1 where a: "announce e mgr (io\<lparr>peer_fd := fd\<rparr>) tr = (ok, io1, tr1)" by (metis prod_cases3)
    from assms(1) store have "servant io = Connecting" "peer_fd io = CLOSED" "io0 = io"
      "connectTCP e io tr0 = (fd, tr)" by (auto elim!: at_roundE)
    with store connecting_by_pieces[OF _ _ _ a] at_round.stored[OF a] show ?thesis by blast
  next
    case (tell ok)
    with assms(1) have "(io0, tr0) = (io', snd (sys e (Sleep 5) tr'))" by (auto elim!: at_roundE)
    with tell at_round.sleeping[of e mgr io' tr'] show ?thesis by simp
  next
    case pause
    with assms(1) have "(io0, tr0) = (io, tr')" by (auto elim!: at_roundE)
    with pause at_round.head[of e mgr io tr'] show ?thesis by simp
  next
    case (call_read c res)
    with assms(1) show ?thesis by (auto elim!: at_roundE intro: at_round.got)
  next
    case leave_and_close
    with assms(1) have s: "servant io = Reading True" "io0 = io" "IO_read e io tr0 = (-1, tr)"
      by (auto elim!: at_roundE)
    then have "io\<lparr>servant := Waiting\<rparr>\<lparr>servant := Reading True\<rparr> = io" by simp
    with at_round.hung_read[of "io\<lparr>servant := Waiting\<rparr>" e tr0 tr mgr] s leave_and_close show ?thesis
      by auto
  qed (use False in auto)
qed

section \<open>Requests in the middle of a round\<close>

text \<open>A push changes nothing that the pieces of a round look at.\<close>

lemma connectTCP_push: "connectTCP e (io\<lparr>peer_que := q\<rparr>) tr = connectTCP e io tr"
proof -
  have "try_address e (io\<lparr>peer_que := q\<rparr>) ai t = try_address e io ai t" for ai t
    by (simp add: try_address_def use_socket_def bind_local_def split_beta)
  then have "try_addresses e (io\<lparr>peer_que := q\<rparr>) ais fd t = try_addresses e io ais fd t" for ais fd t
    by (induction ais arbitrary: fd t) (auto split: prod.split attempt.split)
  then show ?thesis by (simp add: connectTCP_def)
qed

lemma announce_push:
  "announce e mgr io tr = (ok, io1, tr1) \<Longrightarrow>
    announce e mgr (io\<lparr>peer_que := q\<rparr>) tr = (ok, io1\<lparr>peer_que := q\<rparr>, tr1)"
  by (auto simp: announce_def notifyManager_def Let_def split: prod.splits if_splits)

lemma announce_frame:
  "announce e mgr io tr = (ok, io1, tr1) \<Longrightarrow>
    peer_ip io1 = peer_ip io \<and> peer_port io1 = peer_port io \<and> peer_fd io1 = peer_fd io \<and>
    peer_que io1 = peer_que io"
  by (auto simp: announce_def Let_def split: prod.splits if_splits)

text \<open>So a request that comes in the middle of a round finds, and leaves, the peer as if it had come
  before the round, or after it.\<close>

lemma request_at_round:
  assumes "at_round e mgr (io, mo, tr) (io0, tr0)" and "peer_ip io \<noteq> []"
    and "request ip port fd r msg io = (True, io')"
  shows "\<exists>io0'. request ip port fd r msg io0 = (True, io0') \<and> at_round e mgr (io', mo, tr) (io0', tr0)"
proof -
  let ?q = "push (r, msg) (peer_que io)"
  have m: "request_matches ip port fd io" and io': "io' = io\<lparr>peer_que := ?q\<rparr>"
    using assms(2,3) by (auto simp: request_pushes split: if_splits)
  have taken: "request ip port fd r msg x = (True, x\<lparr>peer_que := push (r, msg) (peer_que x)\<rparr>)"
    if "peer_ip x = peer_ip io" "peer_port x = peer_port io" "peer_fd x = peer_fd io" for x
    using that m assms(2) by (simp add: request_pushes request_matches_def)
  from assms(1) show ?thesis
  proof cases
    case head
    with assms(3) show ?thesis by (auto intro: at_round.head)
  next
    case (popped r1 m1)
    have "with_query (r1, m1) io' = io0\<lparr>peer_que := push (r, msg) (peer_que io0)\<rparr>"
      by (simp add: popped io' with_query_def push_def)
    with popped taken[of io0] at_round.popped[of io' e mgr r1 m1 tr] show ?thesis by (simp add: io')
  next
    case (hung_query m1)
    have "with_query (CLOSE, m1) io' = io0\<lparr>peer_que := push (r, msg) (peer_que io0)\<rparr>"
      by (simp add: hung_query io' with_query_def push_def)
    with hung_query taken[of io0] at_round.hung_query[of io' e mgr tr0 m1] show ?thesis by (simp add: io')
  next
    case (hung_read tr1)
    have a: "io'\<lparr>servant := Reading True\<rparr> = io0\<lparr>peer_que := push (r, msg) (peer_que io0)\<rparr>"
      by (simp add: hung_read io')
    have "at_round e mgr (io', mo, tr) (io'\<lparr>servant := Reading True\<rparr>, tr0)"
      using hung_read at_round.hung_read[of io' e tr0 tr1 mgr] by (simp add: io')
    with taken[of io0] show ?thesis unfolding a by (simp add: hung_read)
  next
    case (tried fd1)
    with taken[of io0] at_round.tried[of io' e tr0 fd1 tr mgr] show ?thesis by (simp add: io' connectTCP_push)
  next
    case (stored ok tr1)
    with announce_frame[OF stored(3)] taken[of io0] stored at_round.stored[OF announce_push[OF stored(3)], of ?q] show ?thesis
      by (simp add: io')
  next
    case sleeping
    with taken[of io0] at_round.sleeping[of e mgr io' tr] show ?thesis by (simp add: io')
  next
    case (got c res)
    with taken[of io0] at_round.got[of io' c e tr0 res tr mgr] show ?thesis by (simp add: io')
  qed
qed

section \<open>The simulation\<close>

definition just_born :: "env \<Rightarrow> bool \<Rightarrow> IO \<times> moment \<times> trace \<Rightarrow> bool" where
  "just_born e b s \<longleftrightarrow> (\<exists>io tr. s = (io, Head, tr) \<and> born e b (io, tr))"

text \<open>A peer without an address has not begun anything.\<close>

fun in_use :: "IO \<times> moment \<times> trace \<Rightarrow> bool" where
  "in_use (io, mo, tr) \<longleftrightarrow> (peer_ip io = [] \<longrightarrow> mo = Head \<and> idle io)"

lemma idle_no_piece: "idle io \<Longrightarrow> \<not> thread_piece e mgr (io, Head, tr) s"
  by (auto simp: idle_def pop_def elim: thread_piece.cases)

lemma piece_address: "thread_piece e mgr (io, mo, tr) (io', mo', tr') \<Longrightarrow> peer_ip io' = peer_ip io"
  by (erule thread_piece.cases) (auto dest: announce_frame)

lemma in_use_step: "in_use s \<Longrightarrow> moment_step e mgr s t \<Longrightarrow> in_use t"
  by (erule moment_step.cases)
    (cases s; cases t; auto dest: piece_address idle_no_piece request_idle)+

lemma moment_sim_step:
  assumes a: "at_round e mgr s r" "in_use s" and step: "moment_step e mgr s t"
  shows "\<exists>r'. (life_step e mgr)\<^sup>*\<^sup>* r r' \<and> at_round e mgr t r'"
  using step
proof cases
  case piece
  obtain io mo tr io' mo' tr' io0 tr0 where "s = (io, mo, tr)" "t = (io', mo', tr')" "r = (io0, tr0)"
    by (metis prod_cases3 surj_pair)
  with piece a piece_cases[of e mgr io mo tr io0 tr0 io' mo' tr'] show ?thesis
    by (metis life_step.own r_into_rtranclp rtranclp.rtrancl_refl surj_pair)
next
  case (asked ip port fd rq msg io io' mo tr)
  obtain io0 tr0 where r: "r = (io0, tr0)" by fastforce
  have "\<exists>io0'. request ip port fd rq msg io0 = (True, io0') \<and> at_round e mgr (io', mo, tr) (io0', tr0)"
  proof (cases "peer_ip io = []")
    case True
    with a asked r have "mo = Head" "io0 = io" "tr0 = tr" by (auto elim!: at_roundE)
    with asked show ?thesis by (auto intro: at_round.head)
  next
    case False
    with request_at_round[of e mgr io mo tr io0 tr0] a asked r show ?thesis by simp
  qed
  then show ?thesis using asked r by (blast intro: life_step.asked)
qed

lemma idle_fields: "io = IO_fields ip port junk t \<Longrightarrow> idle io"
  by (simp add: idle_def IO_fields_def new_queue_def)

interpretation moments: simulation "just_born e b" "moment_step e mgr" "born e b" "life_step e mgr"
    "\<lambda>s r. at_round e mgr s r \<and> in_use s" for e b mgr
proof unfold_locales
  fix s assume "just_born e b s"
  then obtain io tr where s: "s = (io, Head, tr)" "born e b (io, tr)" by (auto simp: just_born_def)
  then obtain ip port junk where "io = IO_fields ip port junk (tls io)"
    by (auto simp: born_def dest: IO_new_fields)
  then have "idle io" by (rule idle_fields)
  with s show "\<exists>a. born e b a \<and> at_round e mgr s a \<and> in_use s" by (auto intro: at_round.head)
next
  fix s r t assume "at_round e mgr s r \<and> in_use s" and "moment_step e mgr s t"
  then show "\<exists>r'. (life_step e mgr)\<^sup>*\<^sup>* r r' \<and> at_round e mgr t r' \<and> in_use t"
    using moment_sim_step in_use_step by blast
qed

text \<open>C4: the rounds of a peer's thread are atomic for its manager: whatever requests arrive between
  the pieces of a round, in the middle of an attempt to connect, of a read or of a close, the
  peer is in a state that it also reaches when every round is one step, either before the round
  or after it; at the head of a loop in exactly that state, with exactly the same calls made.\<close>

theorem rounds_are_atomic:
  assumes "reachable (just_born e b) (moment_step e mgr) (io, mo, tr)"
  shows "\<exists>s. reachable (born e b) (life_step e mgr) s \<and> at_round e mgr (io, mo, tr) s \<and>
    (mo = Head \<longrightarrow> s = (io, tr))"
  using moments.sim_reachable[OF assms] by (blast elim: at_round_HeadE)

text \<open>A new peer is told to connect and, while it tries, to write.\<close>

definition busy_peer :: IO where
  "busy_peer = young_peer\<lparr>servant := Connecting, peer_que := \<lparr>que = [(WRITE, ''hi'')]\<rparr>\<rparr>"

lemma busy_peer_reachable:
  "\<exists>fd tr. reachable (just_born e False) (moment_step e mgr) (busy_peer, Tried fd, tr)"
proof -
  let ?p = "young_peer\<lparr>peer_que := \<lparr>que = []\<rparr>\<rparr>" and ?c = "young_peer\<lparr>peer_que := \<lparr>que = []\<rparr>, servant := Connecting\<rparr>"
  obtain fd tr where t: "connectTCP e ?c [] = (fd, tr)" by fastforce
  have "born e False (IO_fields [] 0 0 new_TLS, [])" unfolding born_def using IO_new_plain by blast
  then have 0: "just_born e False (IO_fields [] 0 0 new_TLS, Head, [])" by (simp add: just_born_def)
  have 1: "moment_step e mgr (IO_fields [] 0 0 new_TLS, Head, []) (young_peer, Head, [])"
    by (rule moment_step.asked[of "''127.0.0.1''" 80 CLOSED CONNECT "[]"])
      (simp add: request_def request_matches_def assign_master_def IO_fields_def young_peer_def queue_defs)
  have 2: "moment_step e mgr (young_peer, Head, []) (?p, Popped CONNECT [], [])"
    by (intro moment_step.piece thread_piece.take_query) (simp_all add: young_peer_def fresh pop_def)
  have 3: "moment_step e mgr (?p, Popped CONNECT [], []) (?c, Head, [])"
    using thread_piece.to_connect[of e mgr ?p "[]" "[]"] by (intro moment_step.piece) simp
  have 4: "moment_step e mgr (?c, Head, []) (?c, Tried fd, tr)"
    by (intro moment_step.piece thread_piece.attempt t) (simp_all add: young_peer_def fresh)
  have 5: "moment_step e mgr (?c, Tried fd, tr) (busy_peer, Tried fd, tr)"
    by (rule moment_step.asked[of "''127.0.0.1''" 80 CLOSED WRITE "''hi''"])
      (simp add: request_def request_matches_def assign_master_def IO_fields_def young_peer_def
        busy_peer_def queue_defs)
  note go = reachable_step[where init = "just_born e False" and step = "moment_step e mgr"]
  show ?thesis
    by (intro exI, rule go[OF _ 5], rule go[OF _ 4], rule go[OF _ 3], rule go[OF _ 2], rule go[OF _ 1],
      rule reachable_init, rule 0)
qed

theorem rounds_are_atomic_witness:
  "\<exists>fd tr s. reachable (just_born refusing_env False) (moment_step refusing_env demo_manager) (busy_peer, Tried fd, tr) \<and>
    reachable (born refusing_env False) (life_step refusing_env demo_manager) s \<and>
    at_round refusing_env demo_manager (busy_peer, Tried fd, tr) s"
  using busy_peer_reachable[of refusing_env demo_manager]
    rounds_are_atomic[of refusing_env False demo_manager busy_peer] by blast

text \<open>
  What holds by rounds therefore holds by pieces: here, at the head of a loop, that the peer owns at
  most one open descriptor.
\<close>

lemma moments_own_one_descriptor:
  assumes "setfl_works e"
    and "reachable (just_born e b) (moment_step e (appendNotificationNode e ep)) (io, Head, tr)"
  shows "open_after [] tr = [] \<or> peer_fd io \<noteq> CLOSED \<and> open_after [] tr = [peer_fd io]"
proof -
  obtain s where "reachable (born e b) (life_step e (appendNotificationNode e ep)) s"
    "at_round e (appendNotificationNode e ep) (io, Head, tr) s"
    using moments.sim_reachable[OF assms(2)] by blast
  then have "reachable (born e b) (life_step e (appendNotificationNode e ep)) (io, tr)"
    by (blast elim: at_round_HeadE)
  from owns_fd_reachable[OF assms(1) this] show ?thesis by (simp add: owns_fd_def)
qed

end
