(* ===== verification/Read_Total.thy ===== *)
theory Read_Total
  imports Peer_Thread
begin

text \<open>
  The counter of \<^verbatim>\<open>IO::threadFunc\<close>: \<^verbatim>\<open>all_reads\<close>, an \<^verbatim>\<open>int\<close> that starts at 0
  with each read request and to which every successful read of the loop adds its length. Nothing
  looks at it, so the steps of Peer_Thread leave it out; but C++ gives no meaning to a sum
  beyond the range of \<^verbatim>\<open>int\<close>, and the loop of a plain connection does not end.
\<close>

section \<open>The code\<close>

abbreviation (input) INT_MAX :: int where "INT_MAX \<equiv> 2147483647"

definition add_reads :: "int \<Rightarrow> int \<Rightarrow> int outcome" where
  "add_reads all_reads res =
     (if all_reads + res < -2147483648 \<or> INT_MAX < all_reads + res
      then Inl (Undefined ''all_reads out of range'') else Inr (all_reads + res))"

text \<open>The value of \<^verbatim>\<open>all_reads\<close> after \<open>n\<close> more rounds of the loop, or when the loop is left.\<close>

fun reads_after :: "env \<Rightarrow> nat \<Rightarrow> int \<Rightarrow> IO \<times> trace \<Rightarrow> int outcome" where
  "reads_after e 0 all_reads s = Inr all_reads"
| "reads_after e (Suc n) all_reads (io, tr) =
     (case servant io of
        Reading closing \<Rightarrow>
          let (res, _) = IO_read e io tr; s = reading_round e closing io tr
          in if res = -1 then Inr all_reads
             else if res = 0 then reads_after e n all_reads s
             else (case add_reads all_reads res of
                     Inl x \<Rightarrow> Inl x
                   | Inr all_reads' \<Rightarrow> reads_after e n all_reads' s)
      | _ \<Rightarrow> Inr all_reads)"

section \<open>How long the counter is safe\<close>

text \<open>What \<^verbatim>\<open>read\<close> and \<^verbatim>\<open>SSL_read\<close> document: at most as many bytes as asked for, or -1.\<close>

definition bounded_reads :: "env \<Rightarrow> bool" where
  "bounded_reads e \<longleftrightarrow> (\<forall>tr fd n. -1 \<le> ret (e tr (Read fd n)) \<and> ret (e tr (Read fd n)) \<le> int n) \<and>
     (\<forall>tr s n. -1 \<le> ret (e tr (SSL_read s n)) \<and> ret (e tr (SSL_read s n)) \<le> int n)"

lemma IO_read_bounded:
  assumes "bounded_reads e" and "IO_read e io tr = (res, tr')"
  shows "-1 \<le> res \<and> res \<le> 2048"
proof -
  have "-1 \<le> ret (e tr (Read fd MAX_READ)) \<and> ret (e tr (Read fd MAX_READ)) \<le> 2048"
    "-1 \<le> ret (e tr (SSL_read fd MAX_READ)) \<and> ret (e tr (SSL_read fd MAX_READ)) \<le> 2048" for fd
    using assms(1) unfolding bounded_reads_def MAX_READ_def
    by (metis of_nat_numeral)+
  then show ?thesis using assms(2)
    by (auto simp: IO_read_def sys_eq Let_def split: if_splits prod.splits)
qed

lemma reads_after_bounded:
  assumes "bounded_reads e"
  shows "0 \<le> a \<Longrightarrow> a + 2048 * int n \<le> INT_MAX \<Longrightarrow>
    \<exists>b. reads_after e n a s = Inr b \<and> a \<le> b \<and> b \<le> a + 2048 * int n"
proof (induction n arbitrary: a s)
  case (Suc n)
  obtain io tr where s: "s = (io, tr)" by fastforce
  obtain res tr' where r: "IO_read e io tr = (res, tr')" by fastforce
  note b = IO_read_bounded[OF assms r]
  show ?case
  proof (cases "servant io")
    case (Reading c)
    let ?s = "reading_round e c io tr"
    consider "res = -1" | "res = 0" | "1 \<le> res" using b by linarith
    then show ?thesis
    proof cases
      case 1
      with Reading r s Suc.prems show ?thesis by simp
    next
      case 2
      with Reading r s Suc.prems Suc.IH[of a ?s] show ?thesis by fastforce
    next
      case 3
      with b Suc.prems have "add_reads a res = Inr (a + res)" "0 \<le> a + res"
        "a + res + 2048 * int n \<le> INT_MAX" by (simp_all add: add_reads_def)
      with Suc.IH[of "a + res" ?s] 3 b Reading r s show ?thesis by fastforce
    qed
  qed (use s Suc.prems in simp_all)
qed simp

section \<open>When it is not\<close>

text \<open>A sender that always has data: every read of the descriptor fills the buffer.\<close>

definition full_reads :: "env \<Rightarrow> bool" where
  "full_reads e \<longleftrightarrow> (\<forall>tr fd n. ret (e tr (Read fd n)) = int n)"

lemma reading_full_round:
  assumes "full_reads e" and "ssl (tls io) = 0"
  shows "fst (IO_read e io tr) = 2048" and "fst (reading_round e c io tr) = io"
  using assms
  by (simp_all add: IO_read_def reading_round_def sys_eq full_reads_def MAX_READ_def split_beta)

lemma reads_after_full:
  assumes "full_reads e" and "ssl (tls io) = 0" and "servant io = Reading c"
  shows "0 \<le> a \<Longrightarrow> a \<le> INT_MAX \<Longrightarrow> reads_after e n a (io, tr) =
    (if a + 2048 * int n \<le> INT_MAX then Inr (a + 2048 * int n)
     else Inl (Undefined ''all_reads out of range''))"
proof (induction n arbitrary: a tr)
  case (Suc n)
  obtain tr1 where r: "IO_read e io tr = (2048, tr1)"
    using reading_full_round(1)[OF assms(1,2)] by (metis prod.collapse)
  obtain tr2 where t: "reading_round e c io tr = (io, tr2)"
    using reading_full_round(2)[OF assms(1,2)] by (metis prod.collapse)
  show ?case
  proof (cases "a + 2048 \<le> INT_MAX")
    case True
    with Suc.prems have "add_reads a 2048 = Inr (a + 2048)" by (simp add: add_reads_def)
    with r t assms(3) Suc.IH[of "a + 2048" tr2] Suc.prems True show ?thesis
      by (simp add: algebra_simps)
  next
    case False
    with Suc.prems have "add_reads a 2048 = Inl (Undefined ''all_reads out of range'')"
      by (simp add: add_reads_def)
    with r t assms(3) False show ?thesis by simp
  qed
qed simp

text \<open>C40: the counter of received bytes is safe for a million reads and not longer: with
  documented answers of the system no run of at most 1048575 rounds of a reading loop takes
  \<^verbatim>\<open>all_reads\<close> out of the range of int, whatever is read; and when the sender always has
  data, the next round does, which is undefined behaviour. The loop has no end that would
  prevent it.\<close>

theorem read_counter_limit:
  assumes "bounded_reads e"
  shows "(n \<le> 1048575 \<longrightarrow> (\<exists>a. reads_after e n 0 (io, tr) = Inr a \<and> 0 \<le> a \<and> a \<le> 2048 * int n)) \<and>
    (full_reads e \<and> ssl (tls io) = 0 \<and> servant io = Reading c \<and> 1048576 \<le> n \<longrightarrow>
       reads_after e n 0 (io, tr) = Inl (Undefined ''all_reads out of range''))"
  using reads_after_bounded[OF assms, of 0 n "(io, tr)"] reads_after_full[of e io c 0 n tr] by auto

definition flooding_env :: env where
  "flooding_env tr c = (case c of Read _ n \<Rightarrow> answer (int n) | _ \<Rightarrow> answer 0)"

theorem read_counter_limit_witness:
  "bounded_reads flooding_env \<and>
   (\<exists>a. reads_after flooding_env 1048575 0 (demo_reader, []) = Inr a \<and> a \<le> 2147481600) \<and>
   reads_after flooding_env 1048576 0 (demo_reader, []) = Inl (Undefined ''all_reads out of range'')"
proof -
  have b: "bounded_reads flooding_env" by (simp add: bounded_reads_def flooding_env_def)
  moreover have "full_reads flooding_env" "ssl (tls demo_reader) = 0" "servant demo_reader = Reading False"
    by (simp_all add: full_reads_def flooding_env_def demo_reader_simps)
  moreover note read_counter_limit[OF b, of 1048575 demo_reader "[]" False]
    read_counter_limit[OF b, of 1048576 demo_reader "[]" False]
  ultimately show ?thesis by auto
qed

end
