(* ===== verification/Std_Thread.thy ===== *)
theory Std_Thread
  imports Prelude
begin

text \<open>
  \<^verbatim>\<open>std::thread\<close> as the program uses it: an object that may own a thread, which runs or has
  ended. Joining or replacing an object in the wrong state is not an error value in C++: it
  throws, or calls \<^verbatim>\<open>std::terminate\<close>.
\<close>

section \<open>Thread objects\<close>

datatype thread = No_thread | Executing | Ended

definition joinable :: "thread \<Rightarrow> bool" where
  "joinable t \<longleftrightarrow> t \<noteq> No_thread"

text \<open>\<open>None\<close>: the caller waits for a thread that has not ended.\<close>

definition thread_join :: "thread \<Rightarrow> thread outcome option" where
  "thread_join t =
     (case t of
        No_thread \<Rightarrow> Some (Inl (Uncaught ''Invalid argument''))
      | Executing \<Rightarrow> None
      | Ended \<Rightarrow> Some (Inr No_thread))"

definition thread_assign :: "thread \<Rightarrow> thread \<Rightarrow> thread outcome" where
  "thread_assign old new = (if joinable old then Inl (Uncaught ''std::terminate'') else Inr new)"

definition thread_destroy :: "thread \<Rightarrow> unit outcome" where
  "thread_destroy t = (if joinable t then Inl (Uncaught ''std::terminate'') else Inr ())"

text \<open>The guard that every join of the program stands behind: \<^verbatim>\<open>if (t.joinable()) t.join();\<close>\<close>

definition guarded_join :: "thread \<Rightarrow> thread outcome option" where
  "guarded_join t = (if joinable t then thread_join t else Some (Inr t))"

section \<open>Sequencing\<close>

text \<open>Operations that may block or end the process, one after the other.\<close>

definition andthen :: "'a outcome option \<Rightarrow> ('a \<Rightarrow> 'b outcome option) \<Rightarrow> 'b outcome option" where
  "andthen m f = (case m of None \<Rightarrow> None | Some (Inl x) \<Rightarrow> Some (Inl x) | Some (Inr v) \<Rightarrow> f v)"

lemma andthen_simps [simp]:
  "andthen None f = None" "andthen (Some (Inl x)) f = Some (Inl x)" "andthen (Some (Inr v)) f = f v"
  by (simp_all add: andthen_def)

text \<open>
  Guarded joins are safe: they wait exactly while the thread runs, they never throw, and what they
  leave behind can be destroyed and joined again.
\<close>

lemma guarded_join_eq:
  "guarded_join t = (if t = Executing then None else Some (Inr No_thread))"
  by (cases t) (simp_all add: guarded_join_def thread_join_def joinable_def)

lemma thread_destroy_No_thread [simp]: "thread_destroy No_thread = Inr ()"
  by (simp add: thread_destroy_def joinable_def)

end
