(* ===== verification/Shutdown.thy ===== *)
theory Shutdown
  imports Std_Thread Client_Main
begin

text \<open>
  The end of \<^verbatim>\<open>main\<close>: \<^verbatim>\<open>client.join()\<close> and the destructors that follow. Every object
  with a thread of its own joins it behind a test for \<^verbatim>\<open>joinable()\<close>.
\<close>

section \<open>The code\<close>

text \<open>The threads of an end point: its own two, one for each peer, and the one of its epoll object.\<close>

record end_point_threads =
  stdIN :: thread
  timer_thr :: thread
  servants :: "thread list"
  waiter_thr :: thread

definition IO_destroy :: "thread \<Rightarrow> unit outcome option" where
  "IO_destroy t = andthen (guarded_join t) (\<lambda>t'. Some (thread_destroy t'))"

definition Epoll_destroy :: "thread \<Rightarrow> unit outcome option" where
  "Epoll_destroy t = andthen (guarded_join t) (\<lambda>t'. Some (thread_destroy t'))"

definition EndPoint_join :: "end_point_threads \<Rightarrow> end_point_threads outcome option" where
  "EndPoint_join ts =
     andthen (guarded_join (stdIN ts)) (\<lambda>a.
     andthen (guarded_join (timer_thr ts)) (\<lambda>b.
       Some (Inr (ts\<lparr>stdIN := a, timer_thr := b\<rparr>))))"

fun destroy_peers :: "thread list \<Rightarrow> unit outcome option" where
  "destroy_peers [] = Some (Inr ())"
| "destroy_peers (t # ts) = andthen (IO_destroy t) (\<lambda>_. destroy_peers ts)"

text \<open>The destructor's body, then the members in the reverse order of their declaration.\<close>

definition EndPoint_destroy :: "end_point_threads \<Rightarrow> unit outcome option" where
  "EndPoint_destroy ts =
     andthen (EndPoint_join ts) (\<lambda>ts1.
     andthen (Some (thread_destroy (timer_thr ts1))) (\<lambda>_.
     andthen (Some (thread_destroy (stdIN ts1))) (\<lambda>_.
     andthen (destroy_peers (servants ts1)) (\<lambda>_.
       Epoll_destroy (waiter_thr ts1)))))"

definition main_end :: "end_point_threads \<Rightarrow> unit outcome option" where
  "main_end ts = andthen (EndPoint_join ts) EndPoint_destroy"

section \<open>When it returns\<close>

lemma IO_destroy_eq: "IO_destroy t = (if t = Executing then None else Some (Inr ()))"
  by (simp add: IO_destroy_def guarded_join_eq)

lemma Epoll_destroy_eq: "Epoll_destroy t = (if t = Executing then None else Some (Inr ()))"
  by (simp add: Epoll_destroy_def guarded_join_eq)

lemma destroy_peers_eq: "destroy_peers ts = (if Executing \<in> set ts then None else Some (Inr ()))"
  by (induction ts) (auto simp: IO_destroy_eq)

lemma EndPoint_join_eq:
  "EndPoint_join ts =
    (if stdIN ts = Executing \<or> timer_thr ts = Executing then None
     else Some (Inr (ts\<lparr>stdIN := No_thread, timer_thr := No_thread\<rparr>)))"
  by (simp add: EndPoint_join_def guarded_join_eq)

text \<open>Joining the client and then destroying it, which joins again, returns normally exactly when no
  thread of the client is running any more, and waits otherwise; in no state of the threads does it
  throw or terminate the process.\<close>

theorem main_end_returns_iff:
  "main_end ts =
     (if Executing \<in> {stdIN ts, timer_thr ts, waiter_thr ts} \<union> set (servants ts) then None
      else Some (Inr ()))"
  by (auto simp: main_end_def EndPoint_destroy_def EndPoint_join_eq destroy_peers_eq Epoll_destroy_eq)

end
