(* ===== verification/Windows.thy ===== *)
theory Windows
  imports Traces
begin

text \<open>
  The calls of the Windows API that the program makes, and its small wrappers around them:
  \<^verbatim>\<open>WinSockInit.h\<close>, \<^verbatim>\<open>Lock.h\<close>, \<^verbatim>\<open>Lock.cpp\<close> and the Windows branch of
  \<^verbatim>\<open>ProcessInstance.h\<close>.
\<close>

section \<open>Calls\<close>

text \<open>Handles are integers, 0 is \<^verbatim>\<open>nullptr\<close>.\<close>

datatype wcall =
    WSAStartup
  | WSACleanup
  | CreateMutexW string
  | CreateFileW string
  | CreateMailslotW string
  | GetMailslotInfo int
  | ReadFile int nat
  | WriteFile int string
  | LockFileEx int
  | UnlockFile int
  | CloseHandle int
  | GetLastError

text \<open>The return value, and what \<^verbatim>\<open>ReadFile\<close> wrote to its buffer.\<close>

record wans =
  wret :: int
  wbytes :: string

type_synonym wrun = "(wcall, wans) run"
type_synonym windows = "(wcall, wans) world"

abbreviation (input) INVALID_HANDLE_VALUE :: int where "INVALID_HANDLE_VALUE \<equiv> -1"

definition wanswer :: "int \<Rightarrow> wans" where
  "wanswer r = \<lparr>wret = r, wbytes = []\<rparr>"

lemma wanswer_simps [simp]: "wret (wanswer r) = r" "wbytes (wanswer r) = []"
  by (simp_all add: wanswer_def)

section \<open>WinSockInit.h\<close>

text \<open>
  The constructor as written: it throws when the result is zero. \<^verbatim>\<open>"..."+res\<close> is the text from
  its character number \<^verbatim>\<open>res\<close> on, here from the first.
\<close>

definition WinSock_new :: "windows \<Rightarrow> wrun \<Rightarrow> unit outcome \<times> wrun" where
  "WinSock_new w tr =
     (let (a, tr1) = sys w WSAStartup tr
      in if \<not> wret a \<noteq> 0
         then (Inl (Uncaught (drop (nat (wret a)) ''WSAStartup failed with error: '')), tr1)
         else (Inr (), tr1))"

definition WinSock_destroy :: "windows \<Rightarrow> wrun \<Rightarrow> wrun" where
  "WinSock_destroy w tr = snd (sys w WSACleanup tr)"

text \<open>\<^verbatim>\<open>WSAStartup\<close> returns 0 when it succeeds: the singleton can only be made when it fails.\<close>

lemma WinSock_new_cases:
  "fst (WinSock_new w tr) =
    (if wret (w tr WSAStartup) = 0 then Inl (Uncaught ''WSAStartup failed with error: '') else Inr ())"
  by (simp add: WinSock_new_def sys_eq Let_def)

text \<open>
  \<^verbatim>\<open>instance()\<close>: a local static object is made by the first call that succeeds; a constructor
  that throws leaves it unmade. The state is whether it was made.
\<close>

definition WinSock_instance :: "windows \<Rightarrow> bool \<Rightarrow> wrun \<Rightarrow> bool outcome \<times> wrun" where
  "WinSock_instance w made tr =
     (if made then (Inr True, tr)
      else (case WinSock_new w tr of (Inl x, tr1) \<Rightarrow> (Inl x, tr1) | (Inr _, tr1) \<Rightarrow> (Inr True, tr1)))"

lemma WinSock_instance_once:
  assumes "WinSock_instance w made tr = (Inr m, tr1)"
  shows "m \<and> WinSock_instance w m tr2 = (Inr True, tr2)"
  using assms by (auto simp: WinSock_instance_def split: if_splits prod.splits sum.splits)

section \<open>ProcessInstance.h\<close>

definition ProcessInstance_win :: "windows \<Rightarrow> wrun \<Rightarrow> (int \<times> bool) \<times> wrun" where
  "ProcessInstance_win w tr =
     (let (a, tr1) = sys w (CreateMutexW ''FirstInstance'') tr in ((wret a, wret a \<noteq> 0), tr1))"

definition ProcessInstance_win_destroy :: "windows \<Rightarrow> int \<times> bool \<Rightarrow> wrun \<Rightarrow> wrun" where
  "ProcessInstance_win_destroy w inst tr =
     (if fst inst \<noteq> 0 then snd (sys w (CloseHandle (fst inst)) tr) else tr)"

text \<open>
  \<^verbatim>\<open>CreateMutexW\<close> gives a handle to the mutex that exists already when there is one, so the
  second process counts as a parent as well.
\<close>

lemma every_instance_is_parent:
  "\<forall>r n. wret (w r (CreateMutexW n)) \<noteq> 0 \<Longrightarrow> snd (fst (ProcessInstance_win w tr))"
  by (simp add: ProcessInstance_win_def sys_eq Let_def)

section \<open>Lock.h, Lock.cpp\<close>

record Lock =
  lock_handle :: int

text \<open>The result of \<^verbatim>\<open>createFile\<close> is an error code, which the constructor ignores.\<close>

definition Lock_createFile :: "windows \<Rightarrow> string \<Rightarrow> wrun \<Rightarrow> (int \<times> Lock) \<times> wrun" where
  "Lock_createFile w fileName tr =
     (let (a, tr1) = sys w (CreateFileW fileName) tr; l = \<lparr>lock_handle = wret a\<rparr>
      in if wret a = INVALID_HANDLE_VALUE
         then (let (e, tr2) = sys w GetLastError tr1 in ((wret e, l), tr2))
         else ((0, l), tr1))"

definition Lock_new :: "windows \<Rightarrow> string \<Rightarrow> wrun \<Rightarrow> Lock \<times> wrun" where
  "Lock_new w fileName tr = (let ((_, l), tr1) = Lock_createFile w fileName tr in (l, tr1))"

definition Lock_lock :: "windows \<Rightarrow> Lock \<Rightarrow> wrun \<Rightarrow> int \<times> wrun" where
  "Lock_lock w l tr =
     (let (a, tr1) = sys w (LockFileEx (lock_handle l)) tr
      in if wret a = 0 then (let (e, tr2) = sys w GetLastError tr1 in (wret e, tr2)) else (0, tr1))"

definition Lock_unlock :: "Lock \<Rightarrow> Lock" where
  "Lock_unlock l = l"

text \<open>
  The offsets and lengths that the destructor passes on are the local variables of another
  function; they are left out, as the call cannot be compiled with them.
\<close>

definition Lock_destroy :: "windows \<Rightarrow> Lock \<Rightarrow> wrun \<Rightarrow> wrun" where
  "Lock_destroy w l tr =
     (let (a, tr1) = sys w (UnlockFile (lock_handle l)) tr;
          tr2 = (if wret a = 0 then snd (sys w GetLastError tr1) else tr1)
      in snd (sys w (CloseHandle (lock_handle l)) tr2))"

text \<open>A Lock does not lock: from its construction to its destruction no call locks anything,
  although the destructor unlocks, and the file handle is closed even when there is none.\<close>

theorem Lock_never_locks:
  assumes "Lock_new w fileName tr = (l, tr1)"
  shows "emits (\<lambda>c. \<forall>h. c \<noteq> LockFileEx h) tr (Lock_destroy w l tr1) \<and>
    UnlockFile (lock_handle l) \<in> fst ` set (Lock_destroy w l tr1) \<and>
    CloseHandle (lock_handle l) \<in> fst ` set (Lock_destroy w l tr1)"
  using assms
  by (auto simp: Lock_new_def Lock_createFile_def Lock_destroy_def sys_eq Let_def split: if_splits)

definition taken_world :: windows where
  "taken_world r c = (case c of CreateFileW _ \<Rightarrow> wanswer INVALID_HANDLE_VALUE | _ \<Rightarrow> wanswer 0)"

theorem Lock_never_locks_witness:
  "\<exists>l tr1. Lock_new taken_world ''lock.pid'' [] = (l, tr1) \<and> lock_handle l = INVALID_HANDLE_VALUE \<and>
    CloseHandle (-1) \<in> fst ` set (Lock_destroy taken_world l tr1)"
proof -
  obtain l tr1 where l: "Lock_new taken_world ''lock.pid'' [] = (l, tr1)" by fastforce
  moreover from l have "lock_handle l = -1"
    by (auto simp: Lock_new_def Lock_createFile_def sys_eq taken_world_def Let_def)
  ultimately show ?thesis using Lock_never_locks[OF l] by auto
qed

end
