(* ===== verification/Mail_Slot.thy ===== *)
theory Mail_Slot
  imports Windows Std_Thread Safe_Queue
begin

text \<open>
  \<^verbatim>\<open>MailSlot.h\<close>, \<^verbatim>\<open>MailSlotImpl.h\<close> and \<^verbatim>\<open>MailSlot.cpp\<close>: the transport that is to carry
  command lines from the second instance to the first on Windows. Two lines of MailSlot.cpp do
  not compile as they are; they are read as they are meant: the thread gets the queue by
  reference, and \<^verbatim>\<open>return;\<close> in \<^verbatim>\<open>write\<close> returns some value, the argument \<open>junk\<close>.
\<close>

section \<open>The code\<close>

datatype userLevel = server | client

definition READ_BUFFER_SIZE :: nat where
  "READ_BUFFER_SIZE = 2048"

record MailSlot =
  ms_handle :: int
  ms_name :: string
  ms_lvl :: userLevel
  read_thr :: thread

definition initReceiver :: "windows \<Rightarrow> string \<Rightarrow> wrun \<Rightarrow> int \<times> wrun" where
  "initReceiver w name tr =
     (let (a, tr1) = sys w (CreateMailslotW name) tr
      in (if wret a \<noteq> INVALID_HANDLE_VALUE then wret a else 0, tr1))"

definition initSender :: "windows \<Rightarrow> string \<Rightarrow> wrun \<Rightarrow> int \<times> wrun" where
  "initSender w name tr =
     (let (a, tr1) = sys w (CreateFileW name) tr
      in (if wret a \<noteq> INVALID_HANDLE_VALUE then wret a else 0, tr1))"

text \<open>\<open>None\<close> is the null pointer. The client level receives, the server level sends.\<close>

definition MailSlot_new :: "userLevel \<Rightarrow> string option \<Rightarrow> MailSlot outcome" where
  "MailSlot_new lvl name =
     (case name of
        None \<Rightarrow> Inl (Uncaught ''not valid MailSlot name'')
      | Some n \<Rightarrow> Inr \<lparr>ms_handle = 0, ms_name = n, ms_lvl = lvl, read_thr = No_thread\<rparr>)"

definition initCall :: "MailSlot \<Rightarrow> windows \<Rightarrow> string \<Rightarrow> wrun \<Rightarrow> int \<times> wrun" where
  "initCall m = (if ms_lvl m = client then initReceiver else initSender)"

text \<open>\<open>EXIT_SUCCESS\<close> is 0; otherwise the error code of the system.\<close>

definition MailSlot_init :: "windows \<Rightarrow> MailSlot \<Rightarrow> wrun \<Rightarrow> int \<times> MailSlot \<times> wrun" where
  "MailSlot_init w m tr =
     (if ms_handle m \<noteq> 0 then (0, m, tr)
      else
        let (h, tr1) = initCall m w (ms_name m) tr; m1 = m\<lparr>ms_handle := h\<rparr>
        in if h \<noteq> 0 then (0, m1, tr1)
           else (let (e, tr2) = sys w GetLastError tr1 in (wret e, m1, tr2)))"

definition MailSlot_readMail :: "MailSlot \<Rightarrow> MailSlot outcome" where
  "MailSlot_readMail m =
     (if ms_lvl m = server then Inl (Uncaught ''Function not implemented'')
      else case thread_assign (read_thr m) Executing of
             Inl x \<Rightarrow> Inl x
           | Inr t \<Rightarrow> Inr (m\<lparr>read_thr := t\<rparr>))"

text \<open>
  The loop of the reading thread. A successful \<^verbatim>\<open>ReadFile\<close> writes at most as many bytes as it
  is asked for; the terminator is then written behind them. \<open>None\<close> is a loop without end.
\<close>

partial_function (option) read_loop ::
  "windows \<Rightarrow> int \<Rightarrow> string ThreadSafeQueue \<Rightarrow> wrun \<Rightarrow> (string ThreadSafeQueue outcome \<times> wrun) option" where
  "read_loop w h q tr =
     (let (a, tr1) = sys w (ReadFile h READ_BUFFER_SIZE) tr
      in if wret a \<noteq> 0
         then (if READ_BUFFER_SIZE \<le> length (wbytes a)
               then Some (Inl (Undefined ''buffer[bytesRead] out of range''), tr1)
               else read_loop w h (push (wbytes a) q) tr1)
         else Some (Inr q, tr1))"

definition MailSlot_read ::
  "windows \<Rightarrow> MailSlot \<Rightarrow> string ThreadSafeQueue \<Rightarrow> wrun \<Rightarrow>
    (MailSlot \<times> string ThreadSafeQueue outcome \<times> wrun) option" where
  "MailSlot_read w m q tr =
     (let (err, m1, tr1) = MailSlot_init w m tr
      in if err \<noteq> 0 then Some (m1, Inr q, tr1)
         else
           let (i, tr2) = sys w (GetMailslotInfo (ms_handle m1)) tr1
           in if wret i = 0 then Some (m1, Inr q, tr2)
              else (case read_loop w (ms_handle m1) q tr2 of
                      None \<Rightarrow> None | Some (r, tr3) \<Rightarrow> Some (m1, r, tr3)))"

definition MailSlot_write :: "windows \<Rightarrow> int \<Rightarrow> MailSlot \<Rightarrow> string \<Rightarrow> wrun \<Rightarrow>
    int outcome \<times> MailSlot \<times> wrun" where
  "MailSlot_write w junk m message tr =
     (if ms_lvl m = client then (Inl (Uncaught ''Function not implemented''), m, tr)
      else
        let (err, m1, tr1) = MailSlot_init w m tr
        in if err \<noteq> 0 then (Inr junk, m1, tr1)
           else
             let (a, tr2) = sys w (WriteFile (ms_handle m1) message) tr1
             in if wret a = 0
                then (let (e, tr3) = sys w GetLastError tr2 in (Inr (wret e), m1, tr3))
                else (Inr 0, m1, tr2))"

text \<open>\<open>None\<close> while the reading thread runs. The handle is closed and keeps its value.\<close>

definition MailSlot_join :: "windows \<Rightarrow> MailSlot \<Rightarrow> wrun \<Rightarrow> (MailSlot \<times> wrun) outcome option" where
  "MailSlot_join w m tr =
     andthen (guarded_join (read_thr m)) (\<lambda>t.
       let m1 = m\<lparr>read_thr := t\<rparr>
       in Some (Inr (m1, if ms_handle m1 \<noteq> 0 then snd (sys w (CloseHandle (ms_handle m1)) tr) else tr)))"

definition MailSlot_destroy :: "windows \<Rightarrow> MailSlot \<Rightarrow> wrun \<Rightarrow> wrun outcome option" where
  "MailSlot_destroy w m tr =
     andthen (MailSlot_join w m tr) (\<lambda>(m1, tr1).
     andthen (Some (thread_destroy (read_thr m1))) (\<lambda>_. Some (Inr tr1)))"

section \<open>Receiving\<close>

text \<open>
  A mail slot that holds the messages \<open>ms\<close>: the reads so far in the run tell which one is next. Nothing is
  said about reads after the last one: the slot is created with \<^verbatim>\<open>MAILSLOT_WAIT_FOREVER\<close>, so
  such a read waits until a message comes or the handle is closed.
\<close>

definition reads :: "wrun \<Rightarrow> nat" where
  "reads tr = length (filter (\<lambda>x. \<exists>h n. fst x = ReadFile h n) tr)"

definition holds_mail :: "windows \<Rightarrow> string list \<Rightarrow> bool" where
  "holds_mail w ms \<longleftrightarrow>
     (\<forall>tr h n. reads tr < length ms \<longrightarrow>
        wret (w tr (ReadFile h n)) \<noteq> 0 \<and> wbytes (w tr (ReadFile h n)) = ms ! reads tr)"

lemma reads_snoc [simp]: "reads (tr @ [(ReadFile h n, a)]) = Suc (reads tr)"
  by (simp add: reads_def)

lemma read_loop_short:
  assumes "holds_mail w ms"
  shows "reads tr + length bs \<le> length ms \<Longrightarrow> take (length bs) (drop (reads tr) ms) = bs \<Longrightarrow>
    \<forall>b \<in> set bs. length b < READ_BUFFER_SIZE \<Longrightarrow>
    \<exists>tr'. read_loop w h q tr = read_loop w h (fold push bs q) tr' \<and> reads tr' = reads tr + length bs"
proof (induction bs arbitrary: q tr)
  case Nil
  then show ?case by auto
next
  case (Cons b bs)
  let ?a = "w tr (ReadFile h READ_BUFFER_SIZE)"
  let ?tr1 = "tr @ [(ReadFile h READ_BUFFER_SIZE, ?a)]"
  from Cons.prems(1) have lt: "reads tr < length ms" by simp
  with Cons.prems(2) have b: "ms ! reads tr = b" "take (length bs) (drop (Suc (reads tr)) ms) = bs"
    by (simp_all add: Cons_nth_drop_Suc[symmetric])
  from assms lt b(1) have a: "wret ?a \<noteq> 0" "wbytes ?a = b" by (auto simp: holds_mail_def)
  have "read_loop w h q tr = read_loop w h (push b q) ?tr1"
    using a Cons.prems(3) by (subst read_loop.simps) (simp add: sys_eq)
  moreover from Cons.IH[of ?tr1 "push b q"] Cons.prems b(2) obtain tr' where
    "read_loop w h (push b q) ?tr1 = read_loop w h (fold push bs (push b q)) tr'"
    "reads tr' = Suc (reads tr) + length bs" by auto
  ultimately show ?case by auto
qed

lemma read_loop_full:
  assumes "holds_mail w ms" and "reads tr < length ms" and "READ_BUFFER_SIZE \<le> length (ms ! reads tr)"
  shows "\<exists>tr'. read_loop w h q tr = Some (Inl (Undefined ''buffer[bytesRead] out of range''), tr')"
  using assms by (subst read_loop.simps) (simp add: sys_eq holds_mail_def)

text \<open>The run of calls after \<open>n\<close> reads, and the answer to the read that follows.\<close>

fun after_reads :: "windows \<Rightarrow> int \<Rightarrow> wrun \<Rightarrow> nat \<Rightarrow> wrun" where
  "after_reads w h tr 0 = tr"
| "after_reads w h tr (Suc n) = after_reads w h (snd (sys w (ReadFile h READ_BUFFER_SIZE) tr)) n"

definition mail :: "windows \<Rightarrow> int \<Rightarrow> wrun \<Rightarrow> nat \<Rightarrow> wans" where
  "mail w h tr n = w (after_reads w h tr n) (ReadFile h READ_BUFFER_SIZE)"

definition read_well :: "wans \<Rightarrow> bool" where
  "read_well a \<longleftrightarrow> wret a \<noteq> 0 \<and> length (wbytes a) < READ_BUFFER_SIZE"

text \<open>\<open>n\<close> messages are read, then a read fails.\<close>

definition reads_until ::
  "windows \<Rightarrow> int \<Rightarrow> string ThreadSafeQueue \<Rightarrow> wrun \<Rightarrow> nat \<Rightarrow> string ThreadSafeQueue \<Rightarrow> wrun \<Rightarrow> bool" where
  "reads_until w h q tr n q' tr' \<longleftrightarrow> list_all (\<lambda>i. read_well (mail w h tr i)) [0..<n] \<and>
     wret (mail w h tr n) = 0 \<and> tr' = after_reads w h tr (Suc n) \<and>
     que q' = que q @ map (\<lambda>i. wbytes (mail w h tr i)) [0..<n]"

lemma mail_simps [simp]:
  "mail w h tr 0 = w tr (ReadFile h READ_BUFFER_SIZE)"
  "mail w h tr (Suc n) = mail w h (snd (sys w (ReadFile h READ_BUFFER_SIZE) tr)) n"
  by (simp_all add: mail_def)

lemma reads_until_0:
  "reads_until w h q tr 0 q' tr' \<longleftrightarrow> wret (w tr (ReadFile h READ_BUFFER_SIZE)) = 0 \<and>
    tr' = snd (sys w (ReadFile h READ_BUFFER_SIZE) tr) \<and> que q' = que q"
  by (simp add: reads_until_def)

lemma reads_until_Suc:
  "reads_until w h q tr (Suc n) q' tr' \<longleftrightarrow> read_well (w tr (ReadFile h READ_BUFFER_SIZE)) \<and>
    reads_until w h (push (wbytes (w tr (ReadFile h READ_BUFFER_SIZE))) q)
      (snd (sys w (ReadFile h READ_BUFFER_SIZE) tr)) n q' tr'"
proof -
  have u: "[0..<Suc n] = 0 # map Suc [0..<n]" by (simp add: map_Suc_upt upt_conv_Cons del: upt_Suc)
  show ?thesis unfolding reads_until_def u by (simp add: list.pred_map comp_def tsq.queue_laws del: snd_sys)
qed

lemma read_loop_returns:
  "read_loop w h q tr = Some r \<Longrightarrow> \<forall>q' tr'. r = (Inr q', tr') \<longrightarrow> (\<exists>n. reads_until w h q tr n q' tr')"
proof (induction rule: read_loop.raw_induct[rotated, consumes 1])
  case (1 loop w h q tr r)
  let ?a = "w tr (ReadFile h READ_BUFFER_SIZE)"
  have "\<exists>n. reads_until w h q tr n q' tr'" if r: "r = (Inr q', tr')" for q' tr'
  proof (cases "wret ?a = 0")
    case True
    with 1(2) r have "reads_until w h q tr 0 q' tr'" by (auto simp: sys_eq reads_until_0)
    then show ?thesis ..
  next
    case False
    with 1(2) r have l: "read_well ?a" "loop w h (push (wbytes ?a) q) (snd (sys w (ReadFile h READ_BUFFER_SIZE) tr)) =
        Some (Inr q', tr')" by (auto simp: sys_eq read_well_def split: if_splits)
    from 1(1)[OF l(2)] l(1) show ?thesis by (metis reads_until_Suc)
  qed
  then show ?case by blast
qed

lemma read_loop_reads:
  "reads_until w h q tr n q' tr' \<Longrightarrow> read_loop w h q tr = Some (Inr q', tr')"
proof (induction n arbitrary: q tr)
  case 0
  then have "q' = q" by (cases q; cases q') (simp add: reads_until_0)
  with 0 show ?case by (subst read_loop.simps) (simp add: reads_until_0 sys_eq)
next
  case (Suc n)
  then show ?case
    by (subst read_loop.simps) (simp add: reads_until_Suc sys_eq read_well_def)
qed

text \<open>C37: every message of the mail slot arrives once, complete and in order: the reading loop returns
  normally exactly when some number of reads succeed, each with fewer bytes than the buffer of 2048
  has, and the next one fails, as it does when the handle is closed (an empty slot makes the read
  wait); then the queue holds exactly the messages that were read, behind what it held before, and nothing was
  called but these reads.\<close>

theorem mail_slot_forwards:
  "read_loop w h q tr = Some (Inr q', tr') \<longleftrightarrow>
    (\<exists>n. list_all (\<lambda>i. wret (mail w h tr i) \<noteq> 0 \<and> length (wbytes (mail w h tr i)) < READ_BUFFER_SIZE) [0..<n] \<and>
      wret (mail w h tr n) = 0 \<and> tr' = after_reads w h tr (Suc n) \<and>
      que q' = que q @ map (\<lambda>i. wbytes (mail w h tr i)) [0..<n])"
  using read_loop_returns[of w h q tr "(Inr q', tr')"] read_loop_reads[of w h q tr _ q' tr']
  unfolding reads_until_def read_well_def by blast

text \<open>A message as long as the buffer makes the reading thread write one byte past it, whatever
  came before: the loop never gets to the messages behind the first such message.\<close>

theorem mail_slot_overrun:
  assumes "holds_mail w (as @ b # cs)" and "reads tr = 0"
    and "\<forall>a \<in> set as. length a < READ_BUFFER_SIZE" and "length b = READ_BUFFER_SIZE"
  shows "\<exists>tr'. read_loop w h q tr = Some (Inl (Undefined ''buffer[bytesRead] out of range''), tr')"
proof -
  obtain tr1 where "read_loop w h q tr = read_loop w h (fold push as q) tr1" "reads tr1 = length as"
    using read_loop_short[OF assms(1), of tr as h q] assms(2,3) by auto
  with read_loop_full[OF assms(1), of tr1] assms(4) show ?thesis by simp
qed

definition mail_world :: "string list \<Rightarrow> windows" where
  "mail_world ms tr c =
     (case c of
        ReadFile _ _ \<Rightarrow> if reads tr < length ms then \<lparr>wret = 1, wbytes = ms ! reads tr\<rparr> else wanswer 0
      | _ \<Rightarrow> wanswer 5)"

lemma mail_world_holds: "holds_mail (mail_world ms) ms"
  by (simp add: holds_mail_def mail_world_def)

lemma reads_Nil [simp]: "reads [] = 0"
  by (simp add: reads_def)

text \<open>In this world the handle is closed when the messages have been read.\<close>

theorem mail_slot_forwards_witness:
  "\<exists>q' tr'. read_loop (mail_world [''-f 4 -c'', ''-f 5 -r'']) 5 new_queue [] = Some (Inr q', tr') \<and>
    que q' = [''-f 4 -c'', ''-f 5 -r'']"
proof -
  let ?w = "mail_world [''-f 4 -c'', ''-f 5 -r'']" and ?q = "\<lparr>que = [''-f 4 -c'', ''-f 5 -r'']\<rparr>"
  have u: "[0..<2] = [0, Suc 0]" by (simp add: upt_rec)
  have "read_loop ?w 5 new_queue [] = Some (Inr ?q, after_reads ?w 5 [] (Suc 2))"
    unfolding mail_slot_forwards
    by (intro exI[of _ 2], unfold u)
      (simp add: mail_world_def numeral_2_eq_2 READ_BUFFER_SIZE_def new_queue_def wanswer_def reads_def)
  then show ?thesis by (intro exI[of _ ?q] exI) simp
qed

theorem mail_slot_overrun_witness:
  "\<exists>tr'. read_loop (mail_world [''hi'', replicate 2048 CHR ''x'']) 5 new_queue [] =
    Some (Inl (Undefined ''buffer[bytesRead] out of range''), tr')"
proof -
  have h: "holds_mail (mail_world [''hi'', replicate 2048 CHR ''x'']) ([''hi''] @ replicate 2048 CHR ''x'' # [])"
    using mail_world_holds[of "[''hi'', replicate 2048 CHR ''x'']"] by simp
  show ?thesis
    by (rule mail_slot_overrun[OF h]) (simp_all add: READ_BUFFER_SIZE_def)
qed

section \<open>Sending\<close>

text \<open>One call of \<^verbatim>\<open>write\<close> after the other, on the same object.\<close>

fun write_all :: "windows \<Rightarrow> int \<Rightarrow> MailSlot \<Rightarrow> string list \<Rightarrow> wrun \<Rightarrow> int outcome list \<times> MailSlot \<times> wrun" where
  "write_all w junk m [] tr = ([], m, tr)"
| "write_all w junk m (s # ss) tr =
     (let (r, m1, tr1) = MailSlot_write w junk m s tr;
          (rs, m2, tr2) = write_all w junk m1 ss tr1
      in (r # rs, m2, tr2))"

definition accepts_mail :: "windows \<Rightarrow> int \<Rightarrow> bool" where
  "accepts_mail w h \<longleftrightarrow> h \<noteq> 0 \<and> h \<noteq> INVALID_HANDLE_VALUE \<and>
     (\<forall>tr n. wret (w tr (CreateFileW n)) = h) \<and> (\<forall>tr s. wret (w tr (WriteFile h s)) \<noteq> 0)"

lemma write_open:
  assumes "accepts_mail w h" and "ms_lvl m = server" and "ms_handle m = h"
  shows "\<exists>run. write_all w junk m ss tr = (map (\<lambda>_. Inr 0) ss, m, tr @ run) \<and>
    map fst run = map (WriteFile h) ss"
proof (induction ss arbitrary: tr)
  case (Cons s ss)
  let ?tr1 = "tr @ [(WriteFile h s, w tr (WriteFile h s))]"
  have "MailSlot_write w junk m s tr = (Inr 0, m, ?tr1)"
    using assms by (simp add: MailSlot_write_def MailSlot_init_def accepts_mail_def sys_eq)
  moreover obtain run where "write_all w junk m ss ?tr1 = (map (\<lambda>_. Inr 0) ss, m, ?tr1 @ run)"
    "map fst run = map (WriteFile h) ss" using Cons.IH by blast
  ultimately show ?case by simp
qed simp

text \<open>A sender opens the mail slot with its first message only and hands over every message
  unchanged and in order: the calls of a sequence of writes are one \<^verbatim>\<open>CreateFile\<close> and one
  \<^verbatim>\<open>WriteFile\<close> for each message, and each write returns 0.\<close>

theorem sender_opens_once:
  assumes "accepts_mail w h" and "MailSlot_new server (Some name) = Inr m" and "ss \<noteq> []"
  shows "\<exists>m' run. write_all w junk m ss tr = (map (\<lambda>_. Inr 0) ss, m', tr @ run) \<and>
    map fst run = CreateFileW name # map (WriteFile h) ss"
proof -
  obtain s ss' where ss: "ss = s # ss'" using assms(3) by (cases ss) auto
  let ?m = "m\<lparr>ms_handle := h\<rparr>"
  let ?tr1 = "tr @ [(CreateFileW name, w tr (CreateFileW name))]"
  let ?tr2 = "?tr1 @ [(WriteFile h s, w ?tr1 (WriteFile h s))]"
  have m: "m = \<lparr>ms_handle = 0, ms_name = name, ms_lvl = server, read_thr = No_thread\<rparr>"
    using assms(2) by (simp add: MailSlot_new_def)
  have "MailSlot_write w junk m s tr = (Inr 0, ?m, ?tr2)"
    using assms(1)
    by (simp add: m MailSlot_write_def MailSlot_init_def initCall_def initSender_def
        accepts_mail_def sys_eq)
  moreover obtain run where "write_all w junk ?m ss' ?tr2 = (map (\<lambda>_. Inr 0) ss', ?m, ?tr2 @ run)"
    "map fst run = map (WriteFile h) ss'" using write_open[OF assms(1), of ?m junk ss' ?tr2] m by auto
  ultimately show ?thesis unfolding ss
    by (intro exI[of _ ?m] exI[of _ "(CreateFileW name, w tr (CreateFileW name)) #
        (WriteFile h s, w ?tr1 (WriteFile h s)) # run"]) simp
qed

theorem sender_opens_once_witness:
  "\<exists>m m' run. MailSlot_new server (Some ''ms_instance'') = Inr m \<and>
    write_all (mail_world []) 0 m [''a'', ''b''] [] = ([Inr 0, Inr 0], m', run) \<and>
    map fst run = [CreateFileW ''ms_instance'', WriteFile 5 ''a'', WriteFile 5 ''b'']"
proof -
  obtain m where m: "MailSlot_new server (Some ''ms_instance'') = Inr m" by (simp add: MailSlot_new_def)
  have "accepts_mail (mail_world []) 5" by (simp add: accepts_mail_def mail_world_def)
  from sender_opens_once[OF this m, of "[''a'', ''b'']" 0 "[]"] m show ?thesis by auto
qed

section \<open>The end of a mail slot\<close>

text \<open>The handle is closed twice: whoever calls \<^verbatim>\<open>join\<close>, as a client of the class has to, closes
  the handle, and the destructor closes the same handle again.\<close>

theorem mail_slot_closed_twice:
  assumes "ms_handle m \<noteq> 0" and "read_thr m \<noteq> Executing"
  shows "\<exists>m1 tr1 a b. MailSlot_join w m tr = Some (Inr (m1, tr1)) \<and>
    MailSlot_destroy w m1 tr1 =
      Some (Inr (tr @ [(CloseHandle (ms_handle m), a), (CloseHandle (ms_handle m), b)]))"
  using assms by (auto simp: MailSlot_join_def MailSlot_destroy_def guarded_join_eq)

theorem mail_slot_closed_twice_witness:
  "\<exists>m1 tr1 a b. MailSlot_join (mail_world []) \<lparr>ms_handle = 5, ms_name = ''ms'', ms_lvl = client, read_thr = Ended\<rparr> []
      = Some (Inr (m1, tr1)) \<and>
    MailSlot_destroy (mail_world []) m1 tr1 = Some (Inr [(CloseHandle 5, a), (CloseHandle 5, b)])"
  using mail_slot_closed_twice[of "\<lparr>ms_handle = 5, ms_name = ''ms'', ms_lvl = client, read_thr = Ended\<rparr>"
      "mail_world []" "[]"] by simp

text \<open>Starting the reading thread a second time replaces a thread object that still owns one.\<close>

lemma readMail_twice_terminates:
  "MailSlot_readMail m = Inr m1 \<Longrightarrow> MailSlot_readMail m1 = Inl (Uncaught ''std::terminate'')"
  by (auto simp: MailSlot_readMail_def thread_assign_def joinable_def split: if_splits)

end
