(* ===== verification/Peer_Reach.thy ===== *)
theory Peer_Reach
  imports Peer_Connect
begin

text \<open>
  \<^verbatim>\<open>IO::connectTCP\<close> against a network in which some addresses can be reached and others
  cannot: which of the addresses of a name the peer ends up connected to.
\<close>

section \<open>The network\<close>

text \<open>The connects of a run, and the address that a descriptor was last connected to.\<close>

definition connects :: "trace \<Rightarrow> (int \<times> string) list" where
  "connects tr = concat (map (\<lambda>x. case fst x of Connect fd a \<Rightarrow> [(fd, a)] | _ \<Rightarrow> []) tr)"

definition target :: "trace \<Rightarrow> int \<Rightarrow> string option" where
  "target tr = map_of (rev (connects tr))"

lemma connects_simps [simp]:
  "connects [] = []" "connects (xs @ ys) = connects xs @ connects ys"
  "connects (x # xs) = (case fst x of Connect fd a \<Rightarrow> [(fd, a)] | _ \<Rightarrow> []) @ connects xs"
  by (simp_all add: connects_def)

lemma target_snoc [simp]:
  "target (tr @ [(Connect fd a, r)]) fd = Some a"
  "target (tr @ [(Select_write fd' n, r)]) = target tr"
  by (simp_all add: target_def)

text \<open>
  The addresses in \<open>R\<close> accept connections: a \<^verbatim>\<open>connect\<close> to one of them succeeds or is in
  progress, and then the socket becomes writable in time without an error. A \<^verbatim>\<open>connect\<close> to
  any other address fails, or is in progress and then never becomes writable or leaves an error
  on the socket. Sockets themselves can be had and set up.
\<close>

definition network :: "env \<Rightarrow> string set \<Rightarrow> bool" where
  "network e R \<longleftrightarrow>
     (\<forall>tr f t p. ret (e tr (Socket f t p)) \<noteq> CLOSED) \<and>
     (\<forall>tr fd. ret (e tr (Setsockopt_reuseaddr fd)) \<noteq> -1) \<and> setfl_works e \<and>
     (\<forall>tr fd a. a \<in> R \<longrightarrow>
        ret (e tr (Connect fd a)) \<noteq> -1 \<or> errno (e tr (Connect fd a)) = EINPROGRESS) \<and>
     (\<forall>tr fd a. a \<notin> R \<longrightarrow> ret (e tr (Connect fd a)) = -1) \<and>
     (\<forall>tr fd a n. target tr fd = Some a \<longrightarrow> a \<in> R \<longrightarrow>
        0 < ret (e tr (Select_write fd n)) \<and> writable (e tr (Select_write fd n)) \<and>
        ret (e tr (Getsockopt_error fd)) \<noteq> -1 \<and> optval (e tr (Getsockopt_error fd)) = 0) \<and>
     (\<forall>tr fd a. target tr fd = Some a \<longrightarrow> a \<notin> R \<longrightarrow> optval (e tr (Getsockopt_error fd)) \<noteq> 0)"

lemma network_laws:
  assumes "network e R"
  shows "ret (e tr (Socket f t p)) \<noteq> CLOSED" and "ret (e tr (Setsockopt_reuseaddr fd)) \<noteq> -1"
    and "setfl_works e"
    and "a \<in> R \<Longrightarrow> ret (e tr (Connect fd a)) = -1 \<Longrightarrow> errno (e tr (Connect fd a)) = EINPROGRESS"
    and "a \<notin> R \<Longrightarrow> ret (e tr (Connect fd a)) = -1"
    and "target tr fd = Some a \<Longrightarrow> a \<in> R \<Longrightarrow> 0 < ret (e tr (Select_write fd n))"
    and "target tr fd = Some a \<Longrightarrow> a \<in> R \<Longrightarrow> writable (e tr (Select_write fd n))"
    and "target tr fd = Some a \<Longrightarrow> a \<in> R \<Longrightarrow> ret (e tr (Getsockopt_error fd)) \<noteq> -1"
    and "target tr fd = Some a \<Longrightarrow> a \<in> R \<Longrightarrow> optval (e tr (Getsockopt_error fd)) = 0"
    and "target tr fd = Some a \<Longrightarrow> a \<notin> R \<Longrightarrow> optval (e tr (Getsockopt_error fd)) \<noteq> 0"
  using assms unfolding network_def by blast+

section \<open>One address\<close>

text \<open>What an attempt with a socket does: one connect, which decides how it ends.\<close>

definition decided :: "string set \<Rightarrow> addrinfo \<Rightarrow> trace \<Rightarrow> attempt \<times> trace \<Rightarrow> bool" where
  "decided R ai tr r \<longleftrightarrow>
     (\<exists>fd ts. connects ts = [(fd, ai_addr ai)] \<and> fd \<noteq> CLOSED \<and>
        (if ai_addr ai \<in> R then r = (Break fd, tr @ ts) else \<exists>fd'. r = (Next fd', tr @ ts)))"

lemma await_connect_reached:
  assumes n: "network e R" and t: "target tr fd = Some a" and "a \<in> R"
  shows "\<exists>ts. await_connect e fd tr = (Break fd, tr @ ts) \<and> connects ts = []"
proof -
  have t': "target (tr @ [(Select_write fd 10, x)]) fd = Some a" for x using t by simp
  show ?thesis
    using network_laws(6-7)[OF n t assms(3), of 10] network_laws(8-9)[OF n t' assms(3)]
    by (simp add: await_connect_def sys_eq Let_def)
qed

lemma await_connect_not_reached:
  assumes n: "network e R" and t: "target tr fd = Some a" and "a \<notin> R"
  shows "\<exists>fd' ts. await_connect e fd tr = (Next fd', tr @ ts) \<and> connects ts = []"
proof -
  have t': "target (tr @ [(Select_write fd 10, x)]) fd = Some a" for x using t by simp
  show ?thesis
    using network_laws(10)[OF n t' assms(3)] by (simp add: await_connect_def sys_eq Let_def)
qed

lemma start_connect_decided:
  assumes n: "network e R" and fd: "fd \<noteq> CLOSED"
  shows "decided R ai tr (start_connect e ai fd tr)"
proof -
  obtain k tr1 where s: "setNonBlock e fd tr = (k, tr1)" by fastforce
  then have k: "k \<noteq> -1" using setNonBlock_works[OF network_laws(3)[OF n], of fd tr] by simp
  from setNonBlock_run[OF s] obtain ts where tr1: "tr1 = tr @ ts" "connects ts = []" by auto
  let ?c = "e tr1 (Connect fd (ai_addr ai))"
  let ?tr2 = "tr1 @ [(Connect fd (ai_addr ai), ?c)]"
  have t: "target ?tr2 fd = Some (ai_addr ai)" by simp
  show ?thesis
  proof (cases "ai_addr ai \<in> R")
    case True
    from await_connect_reached[OF n t True] network_laws(4)[OF n True, of tr1 fd] True s k tr1 fd
    show ?thesis by (auto simp: decided_def start_connect_def sys_eq)
  next
    case False
    from await_connect_not_reached[OF n t False] network_laws(5)[OF n False, of tr1 fd] False s k tr1 fd
    show ?thesis by (auto simp: decided_def start_connect_def sys_eq)
  qed
qed

lemma decided_later:
  "decided R ai (tr @ us) r \<Longrightarrow> connects us = [] \<Longrightarrow> decided R ai tr r"
  unfolding decided_def by (metis append.assoc append_Nil connects_simps(2))

lemma try_address_decided:
  assumes n: "network e R" and "locIp io = []" and "locPort io = 0"
  shows "decided R ai tr (try_address e io ai tr)"
proof -
  let ?tr1 = "tr @ [(Getnameinfo (ai_addr ai), e tr (Getnameinfo (ai_addr ai)))]"
  let ?s = "Socket (ai_family ai) (ai_socktype ai) (ai_protocol ai)"
  let ?fd = "ret (e ?tr1 ?s)"
  let ?tr2 = "?tr1 @ [(?s, e ?tr1 ?s)]"
  let ?tr3 = "?tr2 @ [(Setsockopt_reuseaddr ?fd, e ?tr2 (Setsockopt_reuseaddr ?fd))]"
  have "try_address e io ai tr = start_connect e ai ?fd ?tr3"
    using network_laws(1)[OF n] network_laws(2)[OF n] assms(2,3)
    by (simp add: try_address_def use_socket_def bind_local_def sys_eq Let_def)
  moreover have "decided R ai ?tr3 (start_connect e ai ?fd ?tr3)"
    by (rule start_connect_decided[OF n network_laws(1)[OF n]])
  ultimately show ?thesis
    by (auto intro: decided_later[of R ai tr "drop (length tr) ?tr3"])
qed

section \<open>All addresses\<close>

lemma try_addresses_skip:
  assumes "network e R" and "locIp io = []" and "locPort io = 0"
    and "\<forall>ai \<in> set as. ai_addr ai \<notin> R"
  shows "\<exists>fd' ts. try_addresses e io (as @ bs) fd tr = try_addresses e io bs fd' (tr @ ts) \<and>
    map snd (connects ts) = map ai_addr as"
  using assms(4)
proof (induction as arbitrary: fd tr)
  case Nil
  show ?case by (intro exI[of _ fd] exI[of _ "[]"]) simp
next
  case (Cons ai as)
  from try_address_decided[OF assms(1-3), of ai tr] Cons.prems obtain fd1 c ts where
    "try_address e io ai tr = (Next fd1, tr @ ts)" "connects ts = [(c, ai_addr ai)]"
    by (auto simp: decided_def)
  moreover from Cons.IH[of fd1 "tr @ ts"] Cons.prems obtain fd2 us where
    "try_addresses e io (as @ bs) fd1 (tr @ ts) = try_addresses e io bs fd2 (tr @ ts @ us)"
    "map snd (connects us) = map ai_addr as" by auto
  ultimately show ?case by (intro exI[of _ fd2] exI[of _ "ts @ us"]) simp
qed

text \<open>C19: a peer without local address is connected to the first address of its name that can be reached, in
  a network in which sockets can be had, \<^verbatim>\<open>setsockopt\<close> and \<^verbatim>\<open>fcntl\<close> succeed and every address either
  accepts or fails: the addresses before it are tried once each, in the order in which the resolver gave
  them, none after it is tried, and the descriptor that \<^verbatim>\<open>connectTCP\<close> returns is the socket
  connected to it.\<close>

theorem connectTCP_first_reachable:
  assumes "network e R" and "locIp io = []" and "locPort io = 0"
    and "e tr (Getaddrinfo (peer_ip io) (nat_to_string (unat (peer_port io)))) = g" and "ret g = 0"
    and "infos g = as @ ai # bs" and "\<forall>x \<in> set as. ai_addr x \<notin> R" and "ai_addr ai \<in> R"
  shows "\<exists>fd ts. connectTCP e io tr = (fd, tr @ ts) \<and> fd \<noteq> CLOSED \<and>
    target (tr @ ts) fd = Some (ai_addr ai) \<and> map snd (connects ts) = map ai_addr (as @ [ai])"
proof -
  let ?tr1 = "tr @ [(Getaddrinfo (peer_ip io) (nat_to_string (unat (peer_port io))), g)]"
  from try_addresses_skip[OF assms(1-3,7), of "ai # bs" CLOSED ?tr1] obtain fd1 ts where
    1: "try_addresses e io (as @ ai # bs) CLOSED ?tr1 = try_addresses e io (ai # bs) fd1 (?tr1 @ ts)"
    "map snd (connects ts) = map ai_addr as" by blast
  from try_address_decided[OF assms(1-3), of ai "?tr1 @ ts"] assms(8) obtain fd us where
    2: "try_address e io ai (?tr1 @ ts) = (Break fd, ?tr1 @ ts @ us)"
    "connects us = [(fd, ai_addr ai)]" "fd \<noteq> CLOSED" by (auto simp: decided_def)
  have "connectTCP e io tr = (fd, ?tr1 @ ts @ us)"
    using assms(4-6) 1(1) 2(1) by (simp add: connectTCP_def sys_eq)
  with 1(2) 2(2,3) show ?thesis
    by (intro exI[of _ fd] exI[of _ "drop (length tr) ?tr1 @ ts @ us"]) (simp add: target_def)
qed

text \<open>Three addresses, of which the second and the third answer.\<close>

definition demo_network :: env where
  "demo_network tr c =
     (case c of
        Getaddrinfo _ _ \<Rightarrow> (answer 0)\<lparr>infos := [\<lparr>ai_family = 2, ai_socktype = 1, ai_protocol = 6, ai_addr = ''A''\<rparr>,
          \<lparr>ai_family = 2, ai_socktype = 1, ai_protocol = 6, ai_addr = ''B''\<rparr>,
          \<lparr>ai_family = 2, ai_socktype = 1, ai_protocol = 6, ai_addr = ''C''\<rparr>]\<rparr>
      | Socket _ _ _ \<Rightarrow> answer 4
      | Connect _ _ \<Rightarrow> (answer (-1))\<lparr>errno := EINPROGRESS\<rparr>
      | Select_write _ _ \<Rightarrow> (answer 1)\<lparr>writable := True\<rparr>
      | Getsockopt_error fd \<Rightarrow> (answer 0)\<lparr>optval := (if target tr fd = Some ''A'' then 111 else 0)\<rparr>
      | _ \<Rightarrow> answer 0)"

lemma demo_network_laws: "network demo_network (UNIV - {''A''})"
  by (simp add: network_def setfl_works_def demo_network_def CLOSED_def)

theorem connectTCP_first_reachable_witness:
  "\<exists>fd ts. connectTCP demo_network (IO_fields [] 0 80 new_TLS) [] = (fd, ts) \<and> fd \<noteq> CLOSED \<and>
    target ts fd = Some ''B'' \<and> map snd (connects ts) = [''A'', ''B'']"
proof -
  let ?a = "\<lambda>s. \<lparr>ai_family = 2, ai_socktype = 1, ai_protocol = 6, ai_addr = s\<rparr>"
  have "infos (demo_network [] (Getaddrinfo i p)) = [?a ''A''] @ ?a ''B'' # [?a ''C'']"
    "ret (demo_network [] (Getaddrinfo i p)) = 0" for i p
    by (simp_all add: demo_network_def)
  from connectTCP_first_reachable[OF demo_network_laws _ _ refl this(2,1), of "IO_fields [] 0 80 new_TLS"]
  show ?thesis by (simp add: fresh)
qed

end
