(* ===== verification/Servinfo.thy ===== *)
theory Servinfo
  imports Peer_Connect
begin

text \<open>
  \<^verbatim>\<open>Servinfo.h\<close>: the owner of the address list that \<^verbatim>\<open>getaddrinfo\<close> allocates for
  \<^verbatim>\<open>IO::connectTCP\<close>. Peer_Connect translates \<^verbatim>\<open>connectTCP\<close> without the owner; here it is
  added around it.
\<close>

section \<open>The code\<close>

text \<open>The pointer: \<open>None\<close> is \<^verbatim>\<open>nullptr\<close>, otherwise a list that was allocated.\<close>

record Servinfo =
  info_data :: "addrinfo list option"

definition Servinfo_new :: Servinfo where
  "Servinfo_new = \<lparr>info_data = None\<rparr>"

text \<open>\<^verbatim>\<open>getaddrinfo(..., &servinfo)\<close> writes through the pointer when it succeeds.\<close>

definition Servinfo_resolve :: "env \<Rightarrow> IO \<Rightarrow> Servinfo \<Rightarrow> trace \<Rightarrow> Servinfo \<times> trace" where
  "Servinfo_resolve e io s tr =
     (let (g, tr1) = sys e (Getaddrinfo (peer_ip io) (nat_to_string (unat (peer_port io)))) tr
      in (if ret g = 0 then s\<lparr>info_data := Some (infos g)\<rparr> else s, tr1))"

text \<open>The conversion to \<^verbatim>\<open>addrinfo *\<close>, as the list that the loop runs through.\<close>

definition Servinfo_list :: "Servinfo \<Rightarrow> addrinfo list" where
  "Servinfo_list s = (case info_data s of None \<Rightarrow> [] | Some l \<Rightarrow> l)"

text \<open>The destructor: what it passes to \<^verbatim>\<open>freeaddrinfo\<close>.\<close>

definition Servinfo_destroy :: "Servinfo \<Rightarrow> addrinfo list option" where
  "Servinfo_destroy s = info_data s"

definition connectTCP_owned :: "env \<Rightarrow> IO \<Rightarrow> trace \<Rightarrow> addrinfo list option \<times> int \<times> trace" where
  "connectTCP_owned e io tr =
     (let (s, tr1) = Servinfo_resolve e io Servinfo_new tr;
          (fd, tr2) = try_addresses e io (Servinfo_list s) CLOSED tr1
      in (Servinfo_destroy s, fd, tr2))"

section \<open>What is freed\<close>

text \<open>The owner does not change what connecting does, and on every path through it, by success,
  exhaustion of the addresses or none at all, exactly the list that \<^verbatim>\<open>getaddrinfo\<close> allocated is
  freed, once; when the name does not resolve the null pointer is freed.\<close>

theorem connectTCP_frees_its_list:
  "snd (connectTCP_owned e io tr) = connectTCP e io tr \<and>
   fst (connectTCP_owned e io tr) =
     (let g = e tr (Getaddrinfo (peer_ip io) (nat_to_string (unat (peer_port io))))
      in if ret g = 0 then Some (infos g) else None)"
  by (simp add: connectTCP_owned_def connectTCP_def Servinfo_resolve_def Servinfo_new_def
      Servinfo_list_def Servinfo_destroy_def sys_eq Let_def split: prod.split)

end
