(* ===== verification/Logging.thy ===== *)
theory Logging
  imports Prelude
begin

text \<open>
  \<^verbatim>\<open>ILog.h\<close>, \<^verbatim>\<open>IDB.h\<close> and \<^verbatim>\<open>EmptyImplementation.h\<close>: the logger, which formats its
  text into a buffer of the right size and then drops it, and the data base that does nothing.
  \<^verbatim>\<open>Logger\<close> and \<^verbatim>\<open>EmptyLogger\<close> inherit \<^verbatim>\<open>log\<close> as it is.
\<close>

section \<open>The code\<close>

text \<open>
  \<^verbatim>\<open>snprintf\<close> for what the program uses of it: literal text and \<^verbatim>\<open>%s\<close> with C strings. It
  returns the length of the whole text, or a negative number when an \<^verbatim>\<open>int\<close> cannot hold it,
  and writes as much as fits with the final zero byte; nothing when the size is zero.
\<close>

fun format_s :: "string \<Rightarrow> string list \<Rightarrow> string outcome" where
  "format_s [] as = Inr []"
| "format_s (c # f) as =
     (if c = CHR ''%''
      then (case (f, as) of
              (d # f', a # as') \<Rightarrow>
                if d = CHR ''s''
                then (case format_s f' as' of
                        Inl x \<Rightarrow> Inl x | Inr t \<Rightarrow> Inr (takeWhile (\<lambda>c. c \<noteq> CHR 0x00) a @ t))
                else Inl (Undefined ''conversion of another type'')
            | _ \<Rightarrow> Inl (Undefined ''conversion without an argument''))
      else (case format_s f as of Inl x \<Rightarrow> Inl x | Inr t \<Rightarrow> Inr (c # t)))"

definition snprintf :: "nat \<Rightarrow> string \<Rightarrow> int \<times> string" where
  "snprintf n text =
     (if length text \<le> 2147483647
      then (int (length text), if n = 0 then [] else take (n - 1) text @ [CHR 0x00])
      else (-1, []))"

text \<open>
  The content of the buffer when \<^verbatim>\<open>log\<close> returns. The sum is one of \<^verbatim>\<open>int\<close>s, its conversion
  to \<^verbatim>\<open>size_t\<close> wraps; \<^verbatim>\<open>make_unique\<close> fills the buffer with zero bytes.
\<close>

definition ILog_log :: "string \<Rightarrow> string list \<Rightarrow> string outcome" where
  "ILog_log format args =
     (case format_s format args of
        Inl x \<Rightarrow> Inl x
      | Inr text \<Rightarrow>
          let r = fst (snprintf 0 text)
          in if r = 2147483647 then Inl (Undefined ''signed overflow'')
             else
               let size = unat (word_of_int (r + 1) :: 64 word); out = snd (snprintf size text)
               in if size < length out then Inl (Undefined ''write past the end of buf'')
                  else Inr (out @ replicate (size - length out) (CHR 0x00)))"

text \<open>The data base: whether it worked, and the variable that \<^verbatim>\<open>get\<close> was given.\<close>

definition EmptyDB_set :: "int \<Rightarrow> int \<Rightarrow> bool" where
  "EmptyDB_set address value = False"

definition EmptyDB_get :: "int \<Rightarrow> int \<Rightarrow> bool \<times> int" where
  "EmptyDB_get address var = (False, var)"

section \<open>The buffer\<close>

lemma unat_size: "n < 2147483647 \<Longrightarrow> unat (word_of_int (int n + 1) :: 64 word) = Suc n"
proof -
  assume "n < 2147483647"
  then have "unat (word_of_nat (Suc n) :: 64 word) = Suc n"
    by (subst unsigned_of_nat) (simp add: take_bit_nat_eq_self)
  then show ?thesis by (simp add: add.commute)
qed

text \<open>Logging is memory safe and complete: whatever the arguments, when their formatted text is
  shorter than the largest \<^verbatim>\<open>int\<close> the buffer is exactly as long as the text with its terminator
  and holds all of it; a longer text gives an empty buffer into which nothing is written; only a
  text of exactly that length leaves defined behaviour, by the sum that overflows.\<close>

theorem log_fits_its_buffer:
  assumes "format_s format args = Inr text"
  shows "ILog_log format args =
    (if length text < 2147483647 then Inr (text @ [CHR 0x00])
     else if length text = 2147483647 then Inl (Undefined ''signed overflow'')
     else Inr [])"
proof -
  consider "length text < 2147483647" | "length text = 2147483647" | "2147483647 < length text"
    by linarith
  then show ?thesis
  proof cases
    case 1
    with assms unat_size[OF 1] show ?thesis by (simp add: ILog_log_def snprintf_def)
  next
    case 2
    with assms show ?thesis by (simp add: ILog_log_def snprintf_def)
  next
    case 3
    with assms show ?thesis by (simp add: ILog_log_def snprintf_def)
  qed
qed

theorem log_fits_its_buffer_witness:
  "ILog_log ''IP: %s MSG: %s!'' [''10.0.0.1'', ''hi''] = Inr (''IP: 10.0.0.1 MSG: hi!'' @ [CHR 0x00])"
proof -
  have "format_s ''IP: %s MSG: %s!'' [''10.0.0.1'', ''hi''] = Inr ''IP: 10.0.0.1 MSG: hi!''" by simp
  from log_fits_its_buffer[OF this] show ?thesis by simp
qed

end
