(* ===== verification/Spec2Isabelle.thy ===== *)
theory Spec2Isabelle
  imports Queue_Spec Session Registry Peer_Moments Read_Total Shutdown Mail_Slot Peer_Reach Servinfo Logging
begin

text \<open>
  A verification library for client_epoll, a TCP client in C++ that keeps connections to several
  servers. The program runs once per machine: the first process is the client, every later one
  sends its command line to the first through a POSIX message queue and ends. In the client, a
  handler thread puts each received line into a queue (\<^verbatim>\<open>ThreadSafeQueue\<close>); an epoll thread
  puts lines of the same form into it when a socket has something to read or was hung up; an
  end point (\<^verbatim>\<open>EndPoint\<close>) takes the lines out, interprets them and passes each request to
  the peer (\<^verbatim>\<open>IO\<close>) that has the address or the descriptor; every peer has a queue of its
  own and a thread that connects, reads, writes and closes, with TLS when it was built so; a
  timer thread calls every peer ten times a second.

  What is modelled, from the bottom up (source files under \<^verbatim>\<open>src/\<close>):

  \<^item> Prelude: outcomes of operations (a value, \<^verbatim>\<open>exit\<close>, an uncaught exception, undefined
    behaviour), reachable states, the locales of invariants, of simulations and of refinements; a refinement is
    an invariant with an abstraction, and a simulation.
  \<^item> Traces, Std_Thread: what is outside the program and the language's own: calls with an answer
    that depends on the whole history, and runs of calls; \<^verbatim>\<open>std::thread\<close> objects.
  \<^item> Safe_Queue, Queue_Threads: \<^verbatim>\<open>ThreadSafeQueue.h\<close>. First each call as a function on the
    contents, with the laws its clients use as the locales \<open>fifo_channel\<close> and, extending it,
    \<open>blocking_queue\<close>; then the same calls
    cut into the steps between which threads interleave (lock, deque operation, notify, the two
    halves of wait, unlock), for any number of threads. The second refines the first.
    Queue_Spec: the thread-level queue refines a bare list to which items are added at either end,
    taken from the front, or which is emptied.
  \<^item> Charconv: the parts of the C++ library that read and print text, with round trips.
  \<^item> Platform: the calls of Linux and OpenSSL that the program makes, as an instance of Traces. An
    environment gives the answer from the whole history; nothing is assumed of it unless a theorem says so. Safety properties
    speak of the trace of calls. Also \<^verbatim>\<open>Auxiliary.h\<close>.
  \<^item> Address: \<^verbatim>\<open>validateAddrTCP\<close> of \<^verbatim>\<open>EndPoint.cpp\<close>.
  \<^item> Tls: \<^verbatim>\<open>TLS.h\<close>, \<^verbatim>\<open>TLS.cpp\<close>, and the objects of OpenSSL alive after a run of calls.
  \<^item> Peer, Peer_Connect, Peer_Thread: \<^verbatim>\<open>IPeer.h\<close>, \<^verbatim>\<open>IO.h\<close>, \<^verbatim>\<open>IO.cpp\<close>: the state of a
    peer and \<^verbatim>\<open>request\<close>; \<^verbatim>\<open>connectTCP\<close>, \<^verbatim>\<open>setNonBlock\<close>, \<^verbatim>\<open>connect\<close>,
    \<^verbatim>\<open>close\<close>; \<^verbatim>\<open>threadFunc\<close> with \<^verbatim>\<open>read\<close> and \<^verbatim>\<open>write\<close>. The loop over the
    addresses is split into one definition per phase; each says which lines it covers by the
    name of the call it starts with. Peer_Moments: the same thread cut into the pieces between
    which a request can arrive. Read_Total: the counter of received bytes in \<^verbatim>\<open>threadFunc\<close>,
    which nothing reads and which the steps therefore leave out.
  \<^item> Servinfo, Peer_Reach: the owner of the address list around \<^verbatim>\<open>connectTCP\<close>
    (\<^verbatim>\<open>Servinfo.h\<close>), and \<^verbatim>\<open>connectTCP\<close> against a network with reachable and
    unreachable addresses.
  \<^item> Logging: \<^verbatim>\<open>ILog.h\<close> and \<^verbatim>\<open>EmptyImplementation.h\<close>.
  \<^item> Epoll_Waiter: \<^verbatim>\<open>Epoll.h\<close>, \<^verbatim>\<open>Epoll.cpp\<close>.
  \<^item> Request_Line, End_Point: \<^verbatim>\<open>EndPoint.h\<close>, \<^verbatim>\<open>EndPoint.cpp\<close>: the loop over the words of a
    line, the choice and the creation of a peer, the bodies of the two threads. End_Point is also
    the manager of its peers and interprets the locale \<open>notification_manager\<close> for them.
  \<^item> Client_Main: \<^verbatim>\<open>main.cpp\<close> and \<^verbatim>\<open>ProcessInstance.h\<close>: both roles of the process, the
    message handler, the options.
  \<^item> Message_Queue: the same handler cut at its calls, with senders, the loop of main that empties the
    queue, other handlers and the end point acting in between. The kernel's queue is a parameter,
    its documented behaviour the hypothesis \<open>posix_mq\<close>, which a list with a flag satisfies.
    Channel_Spec: what the message queue, the handlers and the program's queue are together from a
    moment of rest after that loop on and as long as no line fills a message: a channel that takes lines
    in and hands each out at most once and loses none, in any order, or in the order of sending as long
    as at most one handler holds a line.
  \<^item> Shutdown: \<^verbatim>\<open>client.join()\<close> and the destructors of \<^verbatim>\<open>EndPoint\<close>, \<^verbatim>\<open>IO\<close> and
    \<^verbatim>\<open>Epoll\<close>.
  \<^item> Windows, Mail_Slot: the Windows side, as another instance of Traces: \<^verbatim>\<open>WinSockInit.h\<close>,
    \<^verbatim>\<open>Lock.h\<close>, \<^verbatim>\<open>Lock.cpp\<close>, the Windows branch of \<^verbatim>\<open>ProcessInstance.h\<close>, and the
    mail slot (\<^verbatim>\<open>MailSlot.h\<close>, \<^verbatim>\<open>MailSlotImpl.h\<close>, \<^verbatim>\<open>MailSlot.cpp\<close>), which is to carry
    command lines there. Lines that do not compile are read as they are meant; each is named.
  \<^item> Peer_Life, Peer_Tls, Client_System: what spans components. Peer_Life lets a peer's thread and
    its manager act in any order from the constructor on; Client_System does so for all threads
    of the process on the shared end point and queue. Client_Descriptors: who holds the sockets of
    the process, and which of them epoll was given. Whole_System: Message_Queue and Client_System
    joined, from the sender of a command to the socket. Session: a run of that from the start of
    the program. Registry: the running program as a table from addresses to queues; its steps carry
    labels, read off from the line, the peer and the answer to its \<^verbatim>\<open>read\<close>, and replaying the
    labels gives the table.

  How the code's behaviour becomes a model. A C++ object is a record with the names of its
  members; an \<^verbatim>\<open>int\<close> descriptor is an integer with \<open>CLOSED\<close> = -1, ports and event masks are
  words of 16 and 32 bits. A thread that never returns is a step function: \<open>threadFunc\<close> is one
  step of a peer's thread (taking a query, one round of the connecting loop, one round of the
  reading loop), \<open>waiterFunction\<close>, \<open>timer_pass\<close> and \<open>interpretRequest\<close> are one round of the
  others, \<open>drain\<close> is a partial function. Steps of different threads interleave freely between
  such rounds, not inside one; Queue_Threads and Peer_Moments go below that, for the queue and for
  a peer and its manager, and show that the rounds lose nothing. Members without an initial
  value appear as arguments called \<open>junk\<close>. An exception has no handler anywhere in the program,
  so raising one ends the process.

  What the lemmas show:

  \<^item> The queue: refinement of the sequential queue, mutual exclusion, no lost wake-up, no deadlock,
    no access to the front of an empty deque.
  \<^item> Peers: no descriptor and no OpenSSL object is leaked or freed twice over a peer's life
    (descriptors as long as F_SETFL works), no call is made on the number -1 (as long as
    \<^verbatim>\<open>epoll_create1\<close> succeeded), connects are non-blocking, messages go out in order, what a TLS object guarantees, and what happens when
    a connection is refused, ended or fails to encrypt. A peer is connected to the first address
    that can be reached, if it has no local address. Requests in the middle of a round act as if before or after it. The reading loop turns out never to end
    on a connection that is merely drained, at its end, or (with TLS) broken, and its counter
    overflows after 1048576 full reads.
  \<^item> Texts: exactly which addresses are accepted and which overrun the check, what a line means,
    which lines end the program, that every line that is understood gives well-formed arguments, and that
    command lines, messages and epoll events survive the way into the end point.
  \<^item> The way of command lines: none is lost, doubled or changed whatever the interleaving, and from rest a
    handler finds a message; but a line that arrives between a handler's \<^verbatim>\<open>mq_notify\<close> and its
    \<^verbatim>\<open>mq_receive\<close> stays in the kernel in every continuation, with all later ones, a line that arrives
    while main empties the queue can be thrown away and break its handler, and handlers can overtake
    each other; those that do not overlap keep the order. A mail slot forwards the messages it reads in
    order; it closes its handle twice and is overrun by a message as long as its buffer.
  \<^item> The end: joining and destroying the client returns exactly when none of its threads runs.
  \<^item> The end point and the process: a request reaches the first matching peer only and two peers
    never have the same address; a request that no peer takes is lost; a message reaches its socket and a hang-up
    closes it; the timer ends the process at the first tick; no reachable peer encrypts. No
    socket is leaked by the process, every peer with a descriptor has given it to epoll, but two
    peers can hold the same descriptor.
  \<^item> The whole system: the lines the end point takes, has in its queue or is still to get are exactly
    the commands that were sent and one line for each event that epoll reported. Two theorems show that
    what the program is for can happen, by a run in which the timer does not tick: a command to send words
    to a connected peer gets from the second process to the socket; and from a fresh start, two
    commands connect to a server, with a connect in progress if need be, and send it words. The
    replay of the program's labels on a table of queues, first come, first served for each address, gives
    the queues of the peers.

  Locales are used for the interfaces: \<open>fifo_channel\<close> and \<open>blocking_queue\<close> (queue and its clients), \<open>codec\<close>
  (printer and parser), \<open>run_property\<close> (properties of traces that compose), \<open>peer_interface\<close>
  (end point and peers), \<open>notification_manager\<close> (peers and end point), \<open>handshake_calls\<close> and
  \<open>invariant_system\<close> with its extension \<open>refinement\<close>, and \<open>simulation\<close>, of which every
  refinement is one; each is interpreted on the model's own definitions.

  Bounds. \<open>interpret_stream\<close> and \<open>words\<close> terminate by the length of the rest; \<open>drain\<close> ends after
  one call more than there are messages, \<open>read_loop\<close> with the first read that fails and not before; the steps of
  threads need no fuel, and \<open>reads_after\<close> counts rounds, for any number of them. A descriptor on
  a line is read back when it fits 32 bits.

  Not modelled: the Windows branches inside \<^verbatim>\<open>IO.cpp\<close> (another socket option, other names
  for reading, sleeping and the error code, in a file that calls \<^verbatim>\<open>fcntl\<close> and so does not
  build there); ignoring SIGPIPE, which is why a write to a broken connection only fails; the
  notes in IOCP.h and the unfinished epollError.h, neither of which is part of the program;
  functions that are commented out; the
  bytes a peer reads, which the code never looks at; printing, and with it the undefined reads of
  \<^verbatim>\<open>host\<close> and \<^verbatim>\<open>service\<close> when \<^verbatim>\<open>getnameinfo\<close> failed; the uninitialised
  \<^verbatim>\<open>exceptset\<close> of \<^verbatim>\<open>select\<close>, beyond the arbitrary answer that the environment gives; no theorem claims
  a complete list of the ways in which the process can stop; data races on \<^verbatim>\<open>_fd\<close>,
  \<^verbatim>\<open>_ip\<close> and the list of peers between threads; the interest list inside the kernel: the trace
  shows which descriptors it was given, the environment which events it reports.
\<close>

end
